theory Spec2Isabelle
  imports Main "HOL-Library.Word"
begin

unbundle bit_operations_syntax

section \<open>Common types\<close>

type_synonym byte = "8 word"

text \<open>
  Go's \<open>error\<close> results are values of one datatype: every \<open>errors.New\<close> and
  \<open>fmt.Errorf\<close> of the modelled functions is a constructor (the formatted message
  text is dropped, the constructor names the failing check).
\<close>

datatype error =
    ErrPacketTooShort
  | ErrInvalidMagic
  | ErrUnsupportedVersion
  | ErrInvalidType
  | ErrLengthMismatch
  | ErrClientNotFound
  | ErrClientAlreadyExists
  | ErrMaxClientsReached
  | ErrNoIPAvailable
  | ErrInvalidSequence
  | ErrInvalidKeyLength
  | ErrDecryptionFailed
  | ErrKeyNotFound
  | ErrInvalidHexKey
  | ErrWrongKeyLength
  | ErrIPHeaderTooShort
  | ErrTunNotCreated
  | ErrTunNoPackets
  | ErrResolveAddress
  | ErrUDPWrite
  | ErrReadConfig
  | ErrParseConfig

section \<open>Wire codec (internal/protocol)\<close>

text \<open>\<open>type Packet struct\<close> of packet.go; \<open>Magic\<close> is a \<open>[3]byte\<close> array.\<close>

record Packet =
  Magic :: "byte \<times> byte \<times> byte"
  Type :: byte
  ClientID :: byte
  Sequence :: "32 word"
  Length :: "16 word"
  Version :: byte
  Payload :: "byte list"

definition MagicBytes :: "byte \<times> byte \<times> byte" where
  "MagicBytes = (0x46, 0x56, 0x50)"

definition HeaderSize :: nat where
  "HeaderSize = 12"

definition PacketTypeData :: byte where "PacketTypeData = 1"
definition PacketTypeAuth :: byte where "PacketTypeAuth = 2"
definition PacketTypePing :: byte where "PacketTypePing = 3"
definition PacketTypePong :: byte where "PacketTypePong = 4"

text \<open>
  \<open>ProtocolVersionMajor\<close> is a package variable initialised to 1;
  \<open>InitProtocolVersion\<close> refuses every other major, so it is 1 throughout.
\<close>

definition ProtocolVersionMajor :: int where
  "ProtocolVersionMajor = 1"

text \<open>\<open>binary.LittleEndian\<close>: reading and writing 16- and 32-bit values.\<close>

definition Uint32 :: "byte list \<Rightarrow> 32 word" where
  "Uint32 b = ucast (b ! 0) OR push_bit 8 (ucast (b ! 1))
     OR push_bit 16 (ucast (b ! 2)) OR push_bit 24 (ucast (b ! 3))"

definition Uint16 :: "byte list \<Rightarrow> 16 word" where
  "Uint16 b = ucast (b ! 0) OR push_bit 8 (ucast (b ! 1))"

definition PutUint32 :: "32 word \<Rightarrow> byte list" where
  "PutUint32 v = [ucast v, ucast (drop_bit 8 v), ucast (drop_bit 16 v), ucast (drop_bit 24 v)]"

definition PutUint16 :: "16 word \<Rightarrow> byte list" where
  "PutUint16 v = [ucast v, ucast (drop_bit 8 v)]"

text \<open>
  \<open>ParsePacket\<close>: the only failure is a buffer shorter than the header; every index
  read below is in range once that check has passed.
\<close>

definition ParsePacket :: "byte list \<Rightarrow> error + Packet" where
  "ParsePacket data =
     (if length data < HeaderSize then Inl ErrPacketTooShort
      else Inr \<lparr> Magic = (data ! 0, data ! 1, data ! 2),
                 Type = data ! 3,
                 ClientID = data ! 4,
                 Sequence = Uint32 (take 4 (drop 5 data)),
                 Length = Uint16 (take 2 (drop 9 data)),
                 Version = data ! 11,
                 Payload = drop HeaderSize data \<rparr>)"

text \<open>
  \<open>EncodePacket\<close> allocates \<open>HeaderSize + len(Payload)\<close> bytes and fills them in
  order; its error result is always \<open>nil\<close>, so the model returns the bytes.
\<close>

definition EncodePacket :: "Packet \<Rightarrow> byte list" where
  "EncodePacket packet =
     (case Magic packet of (m0, m1, m2) \<Rightarrow>
        [m0, m1, m2, Type packet, ClientID packet]
        @ PutUint32 (Sequence packet)
        @ PutUint16 (Length packet)
        @ [Version packet]
        @ Payload packet)"

text \<open>validation.go. A validator returns \<open>None\<close> for Go's \<open>nil\<close>.\<close>

definition parseVersion :: "byte \<Rightarrow> int \<times> int \<times> int" where
  "parseVersion version = (1, uint (drop_bit 3 version), uint (version AND 0x07))"

definition ValidateMagic :: "Packet \<Rightarrow> error option" where
  "ValidateMagic packet =
     (if Magic packet \<noteq> MagicBytes then Some ErrInvalidMagic else None)"

definition ValidateVersion :: "Packet \<Rightarrow> error option" where
  "ValidateVersion packet =
     (case parseVersion (Version packet) of (major, _, _) \<Rightarrow>
        if major \<noteq> ProtocolVersionMajor then Some ErrUnsupportedVersion else None)"

definition ValidateType :: "Packet \<Rightarrow> error option" where
  "ValidateType packet =
     (if Type packet < PacketTypeData \<or> Type packet > PacketTypePong
      then Some ErrInvalidType else None)"

text \<open>
  \<open>packet.Length != uint16(len(packet.Payload))\<close>: the conversion to \<open>uint16\<close>
  keeps the low 16 bits of the payload size, which is what \<open>of_nat\<close> into a
  16-bit word does.
\<close>

definition ValidateLength :: "Packet \<Rightarrow> error option" where
  "ValidateLength packet =
     (if Length packet \<noteq> of_nat (length (Payload packet))
      then Some ErrLengthMismatch else None)"

text \<open>The loop of \<open>ValidatePacket\<close> over its slice of validators.\<close>

fun run_validators :: "(Packet \<Rightarrow> error option) list \<Rightarrow> Packet \<Rightarrow> error option" where
  "run_validators [] packet = None"
| "run_validators (validate # rest) packet =
     (case validate packet of
        Some err \<Rightarrow> Some err
      | None \<Rightarrow> run_validators rest packet)"

definition ValidatePacket :: "Packet \<Rightarrow> error option" where
  "ValidatePacket packet =
     run_validators [ValidateMagic, ValidateVersion, ValidateType, ValidateLength] packet"

definition DecodePacket :: "byte list \<Rightarrow> error + Packet" where
  "DecodePacket data =
     (case ParsePacket data of
        Inl err \<Rightarrow> Inl err
      | Inr packet \<Rightarrow>
          (case ValidatePacket packet of
             Some err \<Rightarrow> Inl err
           | None \<Rightarrow> Inr packet))"

section \<open>Formatting helpers (fmt, encoding/hex)\<close>

text \<open>\<open>%d\<close> of a non-negative integer: its decimal digits, most significant first.\<close>

fun Itoa :: "nat \<Rightarrow> string" where
  "Itoa n = (if n < 10 then [''0123456789'' ! n]
             else Itoa (n div 10) @ [''0123456789'' ! (n mod 10)])"

declare Itoa.simps [simp del]

text \<open>\<open>fmt.Sprintf("%x", key)\<close> of a byte slice: two lower-case hex digits per byte.\<close>

definition Sprintf_x :: "byte list \<Rightarrow> string" where
  "Sprintf_x key =
     concat (map (\<lambda>b. [''0123456789abcdef'' ! unat (drop_bit 4 b),
                        ''0123456789abcdef'' ! unat (b AND 0x0F)]) key)"

text \<open>\<open>fmt.Sprintf("10.0.0.%d", i)\<close> and \<open>fmt.Sprintf("%d.%d.%d.%d", a, b, c, d)\<close>.\<close>

definition Sprintf_ip :: "nat \<Rightarrow> string" where
  "Sprintf_ip i = ''10.0.0.'' @ Itoa i"

definition Sprintf_dotted :: "byte \<Rightarrow> byte \<Rightarrow> byte \<Rightarrow> byte \<Rightarrow> string" where
  "Sprintf_dotted a b c d =
     Itoa (unat a) @ ''.'' @ Itoa (unat b) @ ''.'' @ Itoa (unat c) @ ''.'' @ Itoa (unat d)"

text \<open>
  \<open>hex.DecodeString\<close> of the Go standard library: digits are taken in pairs, both
  cases of the letters are accepted, and a bad digit or an odd length is an error
  (\<open>LoadKeysFromConfig\<close> wraps either one the same way).
\<close>

definition fromHexChar :: "char \<Rightarrow> nat option" where
  "fromHexChar c =
     (let n = (of_char c :: nat) in
      if 48 \<le> n \<and> n \<le> 57 then Some (n - 48)
      else if 97 \<le> n \<and> n \<le> 102 then Some (n - 87)
      else if 65 \<le> n \<and> n \<le> 70 then Some (n - 55)
      else None)"

fun DecodeString :: "string \<Rightarrow> error + byte list" where
  "DecodeString [] = Inr []"
| "DecodeString [p] = Inl ErrInvalidHexKey"
| "DecodeString (p # q # rest) =
     (case fromHexChar p of
        None \<Rightarrow> Inl ErrInvalidHexKey
      | Some a \<Rightarrow>
          (case fromHexChar q of
             None \<Rightarrow> Inl ErrInvalidHexKey
           | Some b \<Rightarrow>
               (case DecodeString rest of
                  Inl err \<Rightarrow> Inl err
                | Inr bs \<Rightarrow> Inr (of_nat (a * 16 + b) # bs))))"

section \<open>Key registry (internal/crypto/keys.go)\<close>

record ClientConfig =
  ID_yaml :: byte
  Key_yaml :: string

type_synonym KeyManager = "byte \<rightharpoonup> byte list"

text \<open>
  The loop of \<open>LoadKeysFromConfig\<close> over \<open>config.Clients\<close>: it stops at the first bad
  key, leaving the entries stored so far in the map.
\<close>

fun load_clients :: "ClientConfig list \<Rightarrow> KeyManager \<Rightarrow> error option \<times> KeyManager" where
  "load_clients [] keys = (None, keys)"
| "load_clients (client # rest) keys =
     (case DecodeString (Key_yaml client) of
        Inl err \<Rightarrow> (Some ErrInvalidHexKey, keys)
      | Inr key \<Rightarrow>
          if length key \<noteq> 32 then (Some ErrWrongKeyLength, keys)
          else load_clients rest (keys(ID_yaml client \<mapsto> key)))"

text \<open>
  \<open>LoadKeysFromConfig\<close>. The file system and the YAML library are outside the
  repository and are parameters: \<open>ReadFile\<close> is \<open>os.ReadFile\<close> (the bytes of the file,
  or an error when it cannot be read) and \<open>Unmarshal\<close> is \<open>yaml.Unmarshal\<close> into a
  \<open>Config\<close> (its \<open>Clients\<close>, or an error for text that is not YAML of that shape,
  an id outside \<open>uint8\<close> included). Either error is returned before \<open>km.keys\<close> is
  touched; after a successful parse \<open>km.keys\<close> is reset to an empty map and the loop
  runs.
\<close>

definition LoadKeysFromConfig :: "(string \<Rightarrow> error + string)
    \<Rightarrow> (string \<Rightarrow> error + ClientConfig list) \<Rightarrow> string \<Rightarrow> KeyManager
    \<Rightarrow> error option \<times> KeyManager" where
  "LoadKeysFromConfig ReadFile Unmarshal configPath keys =
     (case ReadFile configPath of
        Inl err \<Rightarrow> (Some ErrReadConfig, keys)
      | Inr data \<Rightarrow>
          (case Unmarshal data of
             Inl err \<Rightarrow> (Some ErrParseConfig, keys)
           | Inr config_clients \<Rightarrow> load_clients config_clients Map.empty))"

text \<open>
  For stating what the loader accepts: a key string is valid when it is hex and decodes to
  exactly 32 bytes, and \<open>decoded_entry\<close> is the registry entry a config entry stands
  for.
\<close>

definition valid_key :: "string \<Rightarrow> bool" where
  "valid_key s = (case DecodeString s of Inl err \<Rightarrow> False | Inr key \<Rightarrow> length key = 32)"

definition decoded_entry :: "ClientConfig \<Rightarrow> byte \<times> byte list" where
  "decoded_entry client =
     (ID_yaml client, case DecodeString (Key_yaml client) of Inl err \<Rightarrow> [] | Inr key \<Rightarrow> key)"

definition GetClientKey :: "byte \<Rightarrow> KeyManager \<Rightarrow> error + byte list" where
  "GetClientKey clientID km =
     (case km clientID of None \<Rightarrow> Inl ErrKeyNotFound | Some key \<Rightarrow> Inr key)"

definition HasClient :: "byte \<Rightarrow> KeyManager \<Rightarrow> bool" where
  "HasClient clientID km = (km clientID \<noteq> None)"

section \<open>AEAD envelope (internal/crypto/encryption.go)\<close>

text \<open>
  ChaCha20-Poly1305 comes from \<open>golang.org/x/crypto\<close>, outside the repository: the
  cipher is a parameter, with \<open>Seal key nonce plaintext\<close> and
  \<open>Open key nonce ciphertext\<close> (\<open>None\<close> when authentication fails).
  \<open>chacha20poly1305.New\<close> refuses every key whose length is not 32.
\<close>

record AEAD =
  Seal :: "byte list \<Rightarrow> byte list \<Rightarrow> byte list \<Rightarrow> byte list"
  Open :: "byte list \<Rightarrow> byte list \<Rightarrow> byte list \<Rightarrow> byte list option"

definition GenerateNonce :: "32 word \<Rightarrow> byte list" where
  "GenerateNonce sequence =
     [ucast sequence, ucast (drop_bit 8 sequence), ucast (drop_bit 16 sequence),
      ucast (drop_bit 24 sequence)] @ replicate 8 0"

definition EncryptPayload :: "AEAD \<Rightarrow> byte list \<Rightarrow> byte list \<Rightarrow> 32 word \<Rightarrow> error + byte list" where
  "EncryptPayload aead payload key sequence =
     (if length key \<noteq> 32 then Inl ErrInvalidKeyLength
      else Inr (Seal aead key (GenerateNonce sequence) payload))"

definition DecryptPayload :: "AEAD \<Rightarrow> byte list \<Rightarrow> byte list \<Rightarrow> 32 word \<Rightarrow> error + byte list" where
  "DecryptPayload aead encryptedPayload key sequence =
     (if length key \<noteq> 32 then Inl ErrInvalidKeyLength
      else (case Open aead key (GenerateNonce sequence) encryptedPayload of
              None \<Rightarrow> Inl ErrDecryptionFailed
            | Some decrypted \<Rightarrow> Inr decrypted))"

section \<open>Peer table (internal/server/client_manager.go)\<close>

text \<open>
  \<open>time.Time\<close> and \<open>time.Duration\<close> are integers (nanoseconds); every call of
  \<open>time.Now()\<close> is the parameter \<open>now\<close> of the operation that makes it.
\<close>

record Client =
  ID :: byte
  IP :: string
  Key :: "byte list"
  Address :: string
  Connected :: bool
  LastSeen :: int
  LastSeq :: "32 word"

text \<open>
  The three Go maps and the timeout. The \<open>keyManager\<close> pointer of the struct is
  read by no method of \<open>ClientManager\<close>; the registry is a field of the server below.
\<close>

record ClientManager =
  clients :: "byte \<rightharpoonup> Client"
  ipToClient :: "string \<rightharpoonup> byte"
  keyToClient :: "string \<rightharpoonup> byte"
  timeout :: int

definition NewClientManager :: ClientManager where
  "NewClientManager =
     \<lparr> clients = Map.empty, ipToClient = Map.empty, keyToClient = Map.empty,
       timeout = 30 * 60 * 1000000000 \<rparr>"

text \<open>\<open>len(cm.clients)\<close>: the number of keys, counted over the 256 values of \<open>uint8\<close>.\<close>

definition all_ids :: "byte list" where
  "all_ids = map of_nat [0..<256]"

definition len_clients :: "ClientManager \<Rightarrow> nat" where
  "len_clients cm = length (filter (\<lambda>i. clients cm i \<noteq> None) all_ids)"

text \<open>
  \<open>for i := uint8(1); i != 0; i++\<close>: the counter wraps from 255 to 0, which ends the
  loop.
\<close>

function findNextClientID_from :: "(byte \<rightharpoonup> Client) \<Rightarrow> byte \<Rightarrow> byte" where
  "findNextClientID_from cl i =
     (if i = 0 then 0
      else if cl i = None then i
      else findNextClientID_from cl (i + 1))"
  by pat_completeness auto
termination
proof (relation "measure (\<lambda>(cl, i). if i = 0 then 0 else 256 - unat i)")
  show "wf (measure (\<lambda>(cl :: byte \<rightharpoonup> Client, i :: byte). if i = 0 then 0 else 256 - unat i))"
    by simp
next
  fix cl :: "byte \<rightharpoonup> Client" and i :: byte
  assume nz: "i \<noteq> 0"
  have lt: "unat i < 256"
    using unsigned_less [of i, where ?'a = nat] by simp
  show "((cl, i + 1), (cl, i)) \<in> measure (\<lambda>(cl, i). if i = 0 then 0 else 256 - unat i)"
  proof (cases "i + 1 = 0")
    case True
    with lt nz show ?thesis by simp
  next
    case False
    then have "unat (i + 1) = unat i + 1"
      using unatSuc [of i] by (simp add: add.commute)
    with lt nz False show ?thesis by simp
  qed
qed

declare findNextClientID_from.simps [simp del]

definition findNextClientID :: "ClientManager \<Rightarrow> byte" where
  "findNextClientID cm = findNextClientID_from (clients cm) 1"

text \<open>\<open>for i := 2; i <= 255; i++\<close> over a Go \<open>int\<close> that is never negative.\<close>

function assignNextIP_from :: "(string \<rightharpoonup> byte) \<Rightarrow> nat \<Rightarrow> string" where
  "assignNextIP_from m i =
     (if i \<le> 255
      then (if m (Sprintf_ip i) = None then Sprintf_ip i
            else assignNextIP_from m (i + 1))
      else [])"
  by pat_completeness auto
termination
  by (relation "measure (\<lambda>(m, i). 256 - i)") auto

declare assignNextIP_from.simps [simp del]

definition assignNextIP :: "ClientManager \<Rightarrow> string" where
  "assignNextIP cm = assignNextIP_from (ipToClient cm) 2"

definition AddClient :: "byte list \<Rightarrow> string \<Rightarrow> int \<Rightarrow> ClientManager
    \<Rightarrow> (error + Client) \<times> ClientManager" where
  "AddClient key address now cm =
     (if len_clients cm \<ge> 256 then (Inl ErrMaxClientsReached, cm)
      else let keyHash = Sprintf_x key in
        if keyToClient cm keyHash \<noteq> None then (Inl ErrClientAlreadyExists, cm)
        else let clientID = findNextClientID cm in
          if clientID = 0 then (Inl ErrMaxClientsReached, cm)
          else let ip = assignNextIP cm in
            if ip = [] then (Inl ErrNoIPAvailable, cm)
            else let client = \<lparr> ID = clientID, IP = ip, Key = key, Address = address,
                                 Connected = True, LastSeen = now, LastSeq = 0 \<rparr>
              in (Inr client,
                  cm\<lparr> clients := (clients cm)(clientID \<mapsto> client),
                      ipToClient := (ipToClient cm)(ip \<mapsto> clientID),
                      keyToClient := (keyToClient cm)(keyHash \<mapsto> clientID) \<rparr>))"

definition delete_client :: "byte \<Rightarrow> Client \<Rightarrow> ClientManager \<Rightarrow> ClientManager" where
  "delete_client clientID client cm =
     cm\<lparr> clients := (clients cm)(clientID := None),
         ipToClient := (ipToClient cm)(IP client := None),
         keyToClient := (keyToClient cm)(Sprintf_x (Key client) := None) \<rparr>"

definition RemoveClient :: "byte \<Rightarrow> ClientManager \<Rightarrow> error option \<times> ClientManager" where
  "RemoveClient clientID cm =
     (case clients cm clientID of
        None \<Rightarrow> (Some ErrClientNotFound, cm)
      | Some client \<Rightarrow> (None, delete_client clientID client cm))"

definition GetClient :: "byte \<Rightarrow> ClientManager \<Rightarrow> error + Client" where
  "GetClient clientID cm =
     (case clients cm clientID of
        None \<Rightarrow> Inl ErrClientNotFound
      | Some client \<Rightarrow> Inr client)"

definition GetClientByIP :: "string \<Rightarrow> ClientManager \<Rightarrow> error + Client" where
  "GetClientByIP ip cm =
     (case ipToClient cm ip of
        None \<Rightarrow> Inl ErrClientNotFound
      | Some clientID \<Rightarrow>
          (case clients cm clientID of
             None \<Rightarrow> Inl ErrClientNotFound
           | Some client \<Rightarrow> Inr client))"

definition UpdateClientActivity :: "byte \<Rightarrow> 32 word \<Rightarrow> int \<Rightarrow> ClientManager
    \<Rightarrow> error option \<times> ClientManager" where
  "UpdateClientActivity clientID sequence now cm =
     (case clients cm clientID of
        None \<Rightarrow> (Some ErrClientNotFound, cm)
      | Some client \<Rightarrow>
          if sequence \<le> LastSeq client then (Some ErrInvalidSequence, cm)
          else (None, cm\<lparr> clients := (clients cm)
                  (clientID \<mapsto> client\<lparr> LastSeen := now, LastSeq := sequence \<rparr>) \<rparr>))"

text \<open>
  \<open>CheckTimeouts\<close>. Go ranges over \<open>cm.clients\<close> in an unspecified order: the
  order is the parameter \<open>order\<close>, a list of the map's keys. The first loop collects
  the ids whose last activity is older than the timeout, the second removes them.
\<close>

definition timed_out :: "int \<Rightarrow> ClientManager \<Rightarrow> byte \<Rightarrow> bool" where
  "timed_out now cm clientID =
     (case clients cm clientID of
        None \<Rightarrow> False
      | Some client \<Rightarrow> now - LastSeen client > timeout cm)"

fun remove_all :: "byte list \<Rightarrow> ClientManager \<Rightarrow> ClientManager" where
  "remove_all [] cm = cm"
| "remove_all (clientID # rest) cm =
     (case clients cm clientID of
        None \<Rightarrow> remove_all rest cm
      | Some client \<Rightarrow> remove_all rest (delete_client clientID client cm))"

definition CheckTimeouts :: "byte list \<Rightarrow> int \<Rightarrow> ClientManager \<Rightarrow> ClientManager" where
  "CheckTimeouts order now cm =
     (let toRemove = filter (timed_out now cm) order in remove_all toRemove cm)"

definition determineClient :: "byte list \<Rightarrow> ClientManager \<Rightarrow> error + byte" where
  "determineClient packetData cm =
     (if length packetData < 20 then Inl ErrIPHeaderTooShort
      else let sourceIP = Sprintf_dotted (packetData ! 12) (packetData ! 13)
                            (packetData ! 14) (packetData ! 15);
               destinationIP = Sprintf_dotted (packetData ! 16) (packetData ! 17)
                            (packetData ! 18) (packetData ! 19)
        in if destinationIP = ''10.0.0.1''
           then (case GetClientByIP sourceIP cm of
                   Inl err \<Rightarrow> Inl err
                 | Inr client \<Rightarrow> Inr (ID client))
           else (case GetClientByIP destinationIP cm of
                   Inl err \<Rightarrow> Inl err
                 | Inr client \<Rightarrow> Inr (ID client)))"

text \<open>Sequences of peer-table operations, for the invariants.\<close>

datatype cm_op =
    OpAddClient "byte list" string int
  | OpRemoveClient byte
  | OpUpdateClientActivity byte "32 word" int
  | OpCheckTimeouts "byte list" int

fun apply_op :: "cm_op \<Rightarrow> ClientManager \<Rightarrow> ClientManager" where
  "apply_op (OpAddClient key address now) cm = snd (AddClient key address now cm)"
| "apply_op (OpRemoveClient clientID) cm = snd (RemoveClient clientID cm)"
| "apply_op (OpUpdateClientActivity clientID sequence now) cm =
     snd (UpdateClientActivity clientID sequence now cm)"
| "apply_op (OpCheckTimeouts order now) cm = CheckTimeouts order now cm"

fun run_ops :: "cm_op list \<Rightarrow> ClientManager \<Rightarrow> ClientManager" where
  "run_ops [] cm = cm"
| "run_ops (op # ops) cm = run_ops ops (apply_op op cm)"

section \<open>TUN port (internal/network, the in-memory implementation)\<close>

record Tun =
  created :: bool
  readQueue :: "byte list list"
  writeQueue :: "byte list list"

definition ReadPacket :: "Tun \<Rightarrow> (error + byte list) \<times> Tun" where
  "ReadPacket t =
     (if \<not> created t then (Inl ErrTunNotCreated, t)
      else (case readQueue t of
              [] \<Rightarrow> (Inl ErrTunNoPackets, t)
            | packet # rest \<Rightarrow> (Inr packet, t\<lparr> readQueue := rest \<rparr>)))"

definition WritePacket :: "byte list \<Rightarrow> Tun \<Rightarrow> error option \<times> Tun" where
  "WritePacket data t =
     (if \<not> created t then (Some ErrTunNotCreated, t)
      else (None, t\<lparr> writeQueue := writeQueue t @ [data] \<rparr>))"

section \<open>Datapath (internal/server)\<close>

text \<open>
  The state the server's handlers and the packet processor share: the peer table, the
  key registry, the TUN device, the datagrams written to the UDP socket (oldest first,
  each with its destination) and the package variable \<open>ProtocolVersionByte\<close>.
  Addresses are kept as the strings \<open>clientAddr.String()\<close> stores. The network is
  part of the state as two fields that no operation changes: \<open>ResolveUDPAddr\<close> is
  \<open>net.ResolveUDPAddr("udp", _)\<close> (the endpoint, or \<open>None\<close> when the string does
  not resolve) and \<open>udpWriteFails\<close> says for which datagrams the socket's
  \<open>WriteToUDP\<close> returns an error.
\<close>

record Server =
  clientManager :: ClientManager
  keyManager :: KeyManager
  tunInterface :: Tun
  udpConn :: "(string \<times> byte list) list"
  ProtocolVersionByte :: byte
  ResolveUDPAddr :: "string \<Rightarrow> string option"
  udpWriteFails :: "string \<Rightarrow> byte list \<Rightarrow> bool"

definition WriteToUDP :: "byte list \<Rightarrow> string \<Rightarrow> Server \<Rightarrow> error option \<times> Server" where
  "WriteToUDP data addr s =
     (if udpWriteFails s addr data then (Some ErrUDPWrite, s)
      else (None, s\<lparr> udpConn := udpConn s @ [(addr, data)] \<rparr>))"

text \<open>packet_processor.go\<close>

definition ProcessPacket :: "AEAD \<Rightarrow> int \<Rightarrow> byte list \<Rightarrow> Server \<Rightarrow> error option \<times> Server" where
  "ProcessPacket aead now packetData s =
     (case DecodePacket packetData of
        Inl err \<Rightarrow> (Some err, s)
      | Inr packet \<Rightarrow>
          (case GetClient (ClientID packet) (clientManager s) of
             Inl err \<Rightarrow> (Some err, s)
           | Inr client \<Rightarrow>
               (case UpdateClientActivity (ClientID packet) (Sequence packet) now
                       (clientManager s) of
                  (Some err, cm') \<Rightarrow> (Some err, s\<lparr> clientManager := cm' \<rparr>)
                | (None, cm') \<Rightarrow>
                    (case DecryptPayload aead (Payload packet) (Key client)
                            (Sequence packet) of
                       Inl err \<Rightarrow> (Some err, s\<lparr> clientManager := cm' \<rparr>)
                     | Inr decryptedPayload \<Rightarrow>
                         (case WritePacket decryptedPayload (tunInterface s) of
                            (Some err, t') \<Rightarrow>
                              (Some err, s\<lparr> clientManager := cm', tunInterface := t' \<rparr>)
                          | (None, t') \<Rightarrow>
                              (None, s\<lparr> clientManager := cm', tunInterface := t' \<rparr>))))))"

definition sendToClient :: "Client \<Rightarrow> byte list \<Rightarrow> Server \<Rightarrow> error option \<times> Server" where
  "sendToClient client data s =
     (case ResolveUDPAddr s (Address client) of
        None \<Rightarrow> (Some ErrResolveAddress, s)
      | Some addr \<Rightarrow> WriteToUDP data addr s)"

definition createAndSendPacket :: "AEAD \<Rightarrow> Client \<Rightarrow> byte list \<Rightarrow> Server
    \<Rightarrow> error option \<times> Server" where
  "createAndSendPacket aead client ipData s =
     (let packet = \<lparr> Magic = (0x46, 0x56, 0x50),
                      Type = PacketTypeData,
                      ClientID = ID client,
                      Sequence = LastSeq client + 1,
                      Length = of_nat (length ipData),
                      Version = ProtocolVersionByte s,
                      Payload = ipData \<rparr>;
          packetData = EncodePacket packet
      in (case EncryptPayload aead packetData (Key client) (Sequence packet) of
            Inl err \<Rightarrow> (Some err, s)
          | Inr encrypted \<Rightarrow> sendToClient client encrypted s))"

definition ProcessOutgoingPacket :: "AEAD \<Rightarrow> Server \<Rightarrow> error option \<times> Server" where
  "ProcessOutgoingPacket aead s =
     (case ReadPacket (tunInterface s) of
        (Inl err, t') \<Rightarrow> (Some err, s\<lparr> tunInterface := t' \<rparr>)
      | (Inr packetData, t') \<Rightarrow>
          (let s1 = s\<lparr> tunInterface := t' \<rparr> in
           case determineClient packetData (clientManager s1) of
             Inl err \<Rightarrow> (Some err, s1)
           | Inr clientID \<Rightarrow>
               (case GetClient clientID (clientManager s1) of
                  Inl err \<Rightarrow> (Some err, s1)
                | Inr client \<Rightarrow> createAndSendPacket aead client packetData s1)))"

text \<open>server_responses.go and the handlers of the UDP read loop\<close>

definition sendAuthResponse :: "byte \<Rightarrow> string \<Rightarrow> byte list \<Rightarrow> string \<Rightarrow> Server
    \<Rightarrow> error option \<times> Server" where
  "sendAuthResponse clientID clientIP key clientAddr s =
     (let payload = take 32 (key @ replicate 32 0) @ map of_char clientIP;
          packet = \<lparr> Magic = (0x46, 0x56, 0x50),
                      Type = PacketTypeAuth,
                      ClientID = clientID,
                      Sequence = 0,
                      Length = of_nat (length payload),
                      Version = ProtocolVersionByte s,
                      Payload = payload \<rparr>
      in WriteToUDP (EncodePacket packet) clientAddr s)"

text \<open>
  \<open>handleAuthPacket\<close>; \<open>random_key\<close> is what \<open>generateRandomKey\<close> reads from
  \<open>crypto/rand\<close>. The handler returns nothing: every failure, that of
  \<open>sendAuthResponse\<close> included, only logs.
\<close>

definition handleAuthPacket :: "byte list \<Rightarrow> int \<Rightarrow> Packet \<Rightarrow> string \<Rightarrow> Server \<Rightarrow> Server" where
  "handleAuthPacket random_key now packet clientAddr s =
     (let chosen =
        (if ClientID packet = 0
         then (if findNextClientID (clientManager s) = 0 then None else Some random_key)
         else (if \<not> HasClient (ClientID packet) (keyManager s) then None
               else (case GetClientKey (ClientID packet) (keyManager s) of
                       Inl err \<Rightarrow> None
                     | Inr key \<Rightarrow> Some key)))
      in case chosen of
           None \<Rightarrow> s
         | Some key \<Rightarrow>
             (case AddClient key clientAddr now (clientManager s) of
                (Inl err, cm') \<Rightarrow> s\<lparr> clientManager := cm' \<rparr>
              | (Inr client, cm') \<Rightarrow>
                  snd (sendAuthResponse (ID client) (IP client) key clientAddr
                         (s\<lparr> clientManager := cm' \<rparr>))))"

definition handleDataPacket :: "AEAD \<Rightarrow> int \<Rightarrow> Packet \<Rightarrow> Server \<Rightarrow> Server" where
  "handleDataPacket aead now packet s = snd (ProcessPacket aead now (EncodePacket packet) s)"

section \<open>Peer-table invariants\<close>

text \<open>
  Consistency of the three indices: every live client is stored under its own id and is
  found under its IP and under the hex form of its key, and every entry of the two
  auxiliary maps points to a live client with that IP, respectively that key.
\<close>

definition indices_consistent :: "ClientManager \<Rightarrow> bool" where
  "indices_consistent cm \<longleftrightarrow>
     (\<forall>i c. clients cm i = Some c \<longrightarrow>
        ID c = i \<and> ipToClient cm (IP c) = Some i
        \<and> keyToClient cm (Sprintf_x (Key c)) = Some i)
     \<and> (\<forall>ip i. ipToClient cm ip = Some i \<longrightarrow> (\<exists>c. clients cm i = Some c \<and> IP c = ip))
     \<and> (\<forall>h i. keyToClient cm h = Some i \<longrightarrow>
           (\<exists>c. clients cm i = Some c \<and> Sprintf_x (Key c) = h))"

text \<open>
  The addresses \<open>assignNextIP\<close> hands out, and the invariant of a table built by the
  operations: consistent indices, id 0 never used, every indexed IP from the pool.
\<close>

definition ip_pool :: "string set" where
  "ip_pool = Sprintf_ip ` {2..255}"

definition table_inv :: "ClientManager \<Rightarrow> bool" where
  "table_inv cm \<longleftrightarrow>
     indices_consistent cm \<and> clients cm 0 = None \<and> dom (ipToClient cm) \<subseteq> ip_pool"

text \<open>A left inverse of \<open>Itoa\<close>, so that distinct numbers print differently.\<close>

fun digits_value :: "nat \<Rightarrow> string \<Rightarrow> nat" where
  "digits_value acc [] = acc"
| "digits_value acc (c # cs) = digits_value (acc * 10 + (of_char c - 48)) cs"

section \<open>Concrete inputs\<close>

text \<open>
  A stand-in cipher for evaluating the datapath at concrete inputs: it masks every byte
  with the first key byte and appends a 16-byte tag made of the nonce and four key
  bytes. The theorems that quantify over the cipher do not depend on it.
\<close>

definition test_aead :: AEAD where
  "test_aead =
     \<lparr> Seal = (\<lambda>key nonce plaintext.
                 map (\<lambda>b. b XOR key ! 0) plaintext @ nonce @ take 4 key),
       Open = (\<lambda>key nonce ciphertext.
                 if 16 \<le> length ciphertext
                    \<and> drop (length ciphertext - 16) ciphertext = nonce @ take 4 key
                 then Some (map (\<lambda>b. b XOR key ! 0)
                              (take (length ciphertext - 16) ciphertext))
                 else None) \<rparr>"

text \<open>
  One live peer, as \<open>AddClient\<close> creates it in an empty table, and a server around
  it; packets, datagrams and configurations for the evaluations below.
\<close>

definition test_key :: "byte list" where
  "test_key = replicate 32 7"

definition test_client :: Client where
  "test_client =
     \<lparr> ID = 1, IP = ''10.0.0.2'', Key = test_key, Address = ''192.168.1.100:12345'',
       Connected = True, LastSeen = 0, LastSeq = 0 \<rparr>"

definition test_cm :: ClientManager where
  "test_cm =
     \<lparr> clients = [1 \<mapsto> test_client], ipToClient = [''10.0.0.2'' \<mapsto> 1],
       keyToClient = [Sprintf_x test_key \<mapsto> 1], timeout = 30 * 60 * 1000000000 \<rparr>"

definition test_server :: Server where
  "test_server =
     \<lparr> clientManager = test_cm, keyManager = [1 \<mapsto> test_key],
       tunInterface = \<lparr> created = True, readQueue = [], writeQueue = [] \<rparr>,
       udpConn = [], ProtocolVersionByte = 0,
       ResolveUDPAddr = Some, udpWriteFails = (\<lambda>addr data. False) \<rparr>"

definition garbage_data_packet :: Packet where
  "garbage_data_packet =
     \<lparr> Magic = MagicBytes, Type = 1, ClientID = 1, Sequence = 1, Length = 3,
       Version = 0, Payload = [1, 2, 3] \<rparr>"

definition oversized_packet :: Packet where
  "oversized_packet =
     \<lparr> Magic = MagicBytes, Type = 1, ClientID = 0, Sequence = 0, Length = 0,
       Version = 0, Payload = replicate 65536 0 \<rparr>"

definition bad_type_packet :: Packet where
  "bad_type_packet =
     \<lparr> Magic = MagicBytes, Type = 9, ClientID = 0, Sequence = 0, Length = 5,
       Version = 0, Payload = [] \<rparr>"

definition egress_datagram :: "byte list" where
  "egress_datagram =
     [0x45, 0, 0, 20, 0, 0, 0, 0, 64, 17, 0, 0, 192, 168, 1, 100, 10, 0, 0, 2]"

definition egress_server :: Server where
  "egress_server =
     test_server\<lparr> tunInterface :=
       \<lparr> created = True, readQueue = [egress_datagram, egress_datagram], writeQueue = [] \<rparr> \<rparr>"

definition egress_plain_packet :: Packet where
  "egress_plain_packet =
     \<lparr> Magic = MagicBytes, Type = PacketTypeData, ClientID = 1, Sequence = 1,
       Length = 20, Version = 0, Payload = egress_datagram \<rparr>"

definition egress_expected_packet :: Packet where
  "egress_expected_packet =
     \<lparr> Magic = MagicBytes, Type = PacketTypeData, ClientID = 1, Sequence = 1,
       Length = 36, Version = 0,
       Payload = Seal test_aead test_key (GenerateNonce 1) egress_datagram \<rparr>"

definition config_key_a :: string where
  "config_key_a = ''a1b2c3d4e5f6789012345678901234567890abcdef1234567890abcdef123456''"

definition config_key_b :: string where
  "config_key_b = ''fedcba0987654321fedcba0987654321fedcba0987654321fedcba0987654321''"

definition duplicate_id_config :: "ClientConfig list" where
  "duplicate_id_config =
     [\<lparr> ID_yaml = 1, Key_yaml = config_key_a \<rparr>, \<lparr> ID_yaml = 1, Key_yaml = config_key_b \<rparr>]"

text \<open>
  A configuration file with two entries for id 1, and a file system and a parser that
  know this one file.
\<close>

definition duplicate_id_yaml :: string where
  "duplicate_id_yaml =
     ''clients: [{id: 1, key: a1b2c3d4e5f6789012345678901234567890abcdef1234567890abcdef123456}, {id: 1, key: fedcba0987654321fedcba0987654321fedcba0987654321fedcba0987654321}]''"

definition test_ReadFile :: "string \<Rightarrow> error + string" where
  "test_ReadFile path =
     (if path = ''config.yaml'' then Inr duplicate_id_yaml else Inl ErrReadConfig)"

definition test_Unmarshal :: "string \<Rightarrow> error + ClientConfig list" where
  "test_Unmarshal data =
     (if data = duplicate_id_yaml then Inr duplicate_id_config else Inl ErrParseConfig)"

definition auth_packet_1 :: Packet where
  "auth_packet_1 =
     \<lparr> Magic = MagicBytes, Type = PacketTypeAuth, ClientID = 1, Sequence = 1, Length = 0,
       Version = 0, Payload = [] \<rparr>"

text \<open>
  254 admissions with pairwise different 32-byte keys, and one more key for the
  admission after them.
\<close>

definition fill_key :: "nat \<Rightarrow> byte list" where
  "fill_key k = replicate 31 0 @ [of_nat k]"

definition fill_ops :: "nat \<Rightarrow> cm_op list" where
  "fill_ops n = map (\<lambda>k. OpAddClient (fill_key k) ''198.51.100.7:4000'' 0) [1..<Suc n]"

definition full_table :: ClientManager where
  "full_table = run_ops (fill_ops 254) NewClientManager"

definition other_key :: "byte list" where
  "other_key = replicate 32 9"

section \<open>Codec lemmas\<close>

lemma Uint32_PutUint32: "Uint32 (PutUint32 v) = v"
  unfolding Uint32_def PutUint32_def
  apply (rule bit_word_eqI)
  subgoal for n
    by (cases "n < 8"; cases "n < 16"; cases "n < 24"; simp add: bit_simps; arith)
  done

lemma Uint16_PutUint16: "Uint16 (PutUint16 v) = v"
  unfolding Uint16_def PutUint16_def
  apply (rule bit_word_eqI)
  subgoal for n
    by (cases "n < 8"; simp add: bit_simps; arith)
  done

lemma PutUint32_Uint32: "PutUint32 (Uint32 [a, b, c, d]) = [a, b, c, d]"
  unfolding Uint32_def PutUint32_def
  apply simp
  apply (intro conjI; rule bit_word_eqI)
     apply (auto simp: bit_simps dest: bit_imp_le_length)
  done

lemma PutUint16_Uint16: "PutUint16 (Uint16 [a, b]) = [a, b]"
  unfolding Uint16_def PutUint16_def
  apply simp
  apply (intro conjI; rule bit_word_eqI)
   apply (auto simp: bit_simps dest: bit_imp_le_length)
  done

lemma header_split:
  assumes "12 \<le> length (data :: byte list)"
  obtains d0 d1 d2 d3 d4 d5 d6 d7 d8 d9 d10 d11 rest
  where "data = d0 # d1 # d2 # d3 # d4 # d5 # d6 # d7 # d8 # d9 # d10 # d11 # rest"
proof -
  from assms have "\<exists>d0 d1 d2 d3 d4 d5 d6 d7 d8 d9 d10 d11 rest.
      data = d0 # d1 # d2 # d3 # d4 # d5 # d6 # d7 # d8 # d9 # d10 # d11 # rest"
    by (simp add: eval_nat_numeral Suc_le_length_iff) blast
  then show ?thesis using that by blast
qed

lemma ParsePacket_EncodePacket: "ParsePacket (EncodePacket p) = Inr p"
proof -
  obtain m0 m1 m2 where m: "Magic p = (m0, m1, m2)"
    by (cases "Magic p") auto
  have s: "take 4 (drop 5 (EncodePacket p)) = PutUint32 (Sequence p)"
    by (simp add: EncodePacket_def m PutUint32_def PutUint16_def)
  have l: "take 2 (drop 9 (EncodePacket p)) = PutUint16 (Length p)"
    by (simp add: EncodePacket_def m PutUint32_def PutUint16_def)
  have len: "\<not> length (EncodePacket p) < HeaderSize"
    by (simp add: EncodePacket_def m PutUint32_def PutUint16_def HeaderSize_def)
  have hd: "EncodePacket p ! 0 = m0" "EncodePacket p ! Suc 0 = m1" "EncodePacket p ! 2 = m2"
    "EncodePacket p ! 3 = Type p" "EncodePacket p ! 4 = ClientID p"
    "EncodePacket p ! 11 = Version p" "drop HeaderSize (EncodePacket p) = Payload p"
    by (simp_all add: EncodePacket_def m PutUint32_def PutUint16_def HeaderSize_def)
  have "ParsePacket (EncodePacket p) = Inr \<lparr> Magic = (m0, m1, m2), Type = Type p,
      ClientID = ClientID p, Sequence = Sequence p, Length = Length p,
      Version = Version p, Payload = Payload p \<rparr>"
    unfolding ParsePacket_def
    by (simp add: len s l hd Uint32_PutUint32 Uint16_PutUint16)
  also have "\<dots> = Inr p"
    by (simp add: m [symmetric])
  finally show ?thesis .
qed

lemma EncodePacket_ParsePacket:
  assumes "ParsePacket b = Inr q"
  shows "EncodePacket q = b"
proof -
  from assms have len: "12 \<le> length b"
    by (simp add: ParsePacket_def HeaderSize_def split: if_splits)
  then obtain d0 d1 d2 d3 d4 d5 d6 d7 d8 d9 d10 d11 rest
    where b: "b = d0 # d1 # d2 # d3 # d4 # d5 # d6 # d7 # d8 # d9 # d10 # d11 # rest"
    by (rule header_split)
  from assms have q: "q = \<lparr> Magic = (d0, d1, d2), Type = d3, ClientID = d4,
      Sequence = Uint32 [d5, d6, d7, d8], Length = Uint16 [d9, d10],
      Version = d11, Payload = rest \<rparr>"
    by (simp add: ParsePacket_def HeaderSize_def b)
  show ?thesis
    by (simp add: q b EncodePacket_def PutUint32_Uint32 PutUint16_Uint16)
qed

section \<open>Claims about the wire codec\<close>

text \<open>
  C8. The wire codec round-trips. For every well-formed packet \<open>p\<close> (its Length field
  equals its payload size) \<open>ParsePacket (EncodePacket p)\<close> succeeds and returns \<open>p\<close>;
  and whenever \<open>ParsePacket\<close> succeeds on a byte string \<open>b\<close>, encoding the parsed
  packet gives back \<open>b\<close> byte for byte.
\<close>

theorem C8_codec_roundtrip:
  "(unat (Length p) = length (Payload p) \<longrightarrow> ParsePacket (EncodePacket p) = Inr p)
   \<and> (ParsePacket b = Inr q \<longrightarrow> EncodePacket q = b)"
  by (simp add: ParsePacket_EncodePacket EncodePacket_ParsePacket)

theorem C8_codec_roundtrip_witness:
  "unat (Length \<lparr> Magic = MagicBytes, Type = 1, ClientID = 7, Sequence = 0x01020304,
                   Length = 2, Version = 0, Payload = [0xAA, 0xBB] \<rparr>)
     = length (Payload \<lparr> Magic = MagicBytes, Type = 1, ClientID = 7, Sequence = 0x01020304,
                   Length = 2, Version = 0, Payload = [0xAA, 0xBB] \<rparr>)
   \<and> ParsePacket (EncodePacket \<lparr> Magic = MagicBytes, Type = 1, ClientID = 7,
                   Sequence = 0x01020304, Length = 2, Version = 0, Payload = [0xAA, 0xBB] \<rparr>)
     = Inr \<lparr> Magic = MagicBytes, Type = 1, ClientID = 7, Sequence = 0x01020304,
                   Length = 2, Version = 0, Payload = [0xAA, 0xBB] \<rparr>
   \<and> ParsePacket [0x46, 0x56, 0x50, 3, 9, 5, 0, 0, 0, 0, 0, 8]
     = Inr \<lparr> Magic = MagicBytes, Type = 3, ClientID = 9, Sequence = 5,
              Length = 0, Version = 8, Payload = [] \<rparr>
   \<and> EncodePacket \<lparr> Magic = MagicBytes, Type = 3, ClientID = 9, Sequence = 5,
              Length = 0, Version = 8, Payload = [] \<rparr>
     = [0x46, 0x56, 0x50, 3, 9, 5, 0, 0, 0, 0, 0, 8]"
proof -
  let ?p = "\<lparr> Magic = MagicBytes, Type = 1, ClientID = 7, Sequence = 0x01020304,
              Length = 2, Version = 0, Payload = [0xAA, 0xBB] \<rparr>"
  let ?b = "[0x46, 0x56, 0x50, 3, 9, 5, 0, 0, 0, 0, 0, 8] :: byte list"
  let ?q = "\<lparr> Magic = MagicBytes, Type = 3, ClientID = 9, Sequence = 5,
              Length = 0, Version = 8, Payload = [] \<rparr>"
  have wf: "unat (Length ?p) = length (Payload ?p)" by simp
  have parse: "ParsePacket ?b = Inr ?q"
    by (simp add: ParsePacket_def HeaderSize_def MagicBytes_def Uint32_def Uint16_def)
  from C8_codec_roundtrip [of ?p ?b ?q] wf parse show ?thesis by simp
qed

section \<open>Validation\<close>

lemma ValidateType_iff:
  "ValidateType p = (if Type p \<notin> {1, 2, 3, 4} then Some ErrInvalidType else None)"
proof -
  have "(Type p < PacketTypeData \<or> Type p > PacketTypePong) = (Type p \<notin> {1, 2, 3, 4})"
    unfolding PacketTypeData_def PacketTypePong_def word_less_nat_alt
    by (simp add: word_unat_eq_iff) arith
  then show ?thesis
    unfolding ValidateType_def by (simp only:)
qed

lemma ValidateVersion_never: "ValidateVersion p = None"
  by (simp add: ValidateVersion_def parseVersion_def ProtocolVersionMajor_def)

lemma ValidateLength_iff:
  assumes "length (Payload p) < 65536"
  shows "ValidateLength p
    = (if unat (Length p) \<noteq> length (Payload p) then Some ErrLengthMismatch else None)"
  using assms by (simp add: ValidateLength_def word_unat_eq_iff unat_of_nat)

text \<open>
  C9, as stated, fails on a payload of 65536 bytes or more: \<open>ValidateLength\<close> compares
  the Length field with the payload size converted to \<open>uint16\<close>, so a packet whose
  Length field is 0 and whose payload has 65536 bytes is accepted although the two differ.
\<close>

theorem C9_validate_counterexample:
  "ValidatePacket oversized_packet = None
   \<and> unat (Length oversized_packet) \<noteq> length (Payload oversized_packet)"
  by (simp add: ValidatePacket_def ValidateMagic_def ValidateVersion_never ValidateType_iff
      ValidateLength_def oversized_packet_def)

text \<open>
  C9 (amended). For every packet whose payload is shorter than 65536 bytes (every packet
  \<open>ParsePacket\<close> can produce from a UDP datagram), \<open>ValidatePacket\<close> rejects it when
  its magic differs from "FVP", its type is outside 1..4, its decoded major version differs
  from 1 (which \<open>parseVersion\<close> never yields), or its Length field differs from its
  payload size, and accepts it otherwise; the checks run in the order magic, version, type,
  length, and the first failing check determines the error.
\<close>

theorem C9_validate_order:
  assumes "length (Payload p) < 65536"
  shows "ValidatePacket p =
    (if Magic p \<noteq> MagicBytes then Some ErrInvalidMagic
     else if fst (parseVersion (Version p)) \<noteq> 1 then Some ErrUnsupportedVersion
     else if Type p \<notin> {1, 2, 3, 4} then Some ErrInvalidType
     else if unat (Length p) \<noteq> length (Payload p) then Some ErrLengthMismatch
     else None)"
proof -
  have major: "fst (parseVersion (Version p)) = 1"
    by (simp add: parseVersion_def)
  show ?thesis
    unfolding ValidatePacket_def
    by (simp add: ValidateMagic_def ValidateVersion_never ValidateType_iff
        ValidateLength_iff [OF assms] major)
qed

theorem C9_validate_order_witness:
  "length (Payload bad_type_packet) < 65536
   \<and> ValidatePacket bad_type_packet = Some ErrInvalidType
   \<and> length (Payload garbage_data_packet) < 65536
   \<and> ValidatePacket garbage_data_packet = None"
proof -
  have a: "length (Payload bad_type_packet) < 65536"
    and b: "length (Payload garbage_data_packet) < 65536"
    by (simp_all add: bad_type_packet_def garbage_data_packet_def)
  from C9_validate_order [OF a] C9_validate_order [OF b] a b show ?thesis
    by (simp add: bad_type_packet_def garbage_data_packet_def parseVersion_def)
qed

section \<open>Replay admission\<close>

text \<open>
  C3. For a live peer \<open>p\<close> with entry \<open>c\<close> and a sequence \<open>s\<close>,
  \<open>UpdateClientActivity\<close> succeeds if and only if \<open>s\<close> is strictly greater than the
  last accepted sequence; on success it sets \<open>LastSeq\<close> to \<open>s\<close> and \<open>LastSeen\<close> to
  the current time and changes nothing else, so a second call with the same \<open>s\<close> (at
  any later time) fails; on failure the table is unchanged.
\<close>

theorem C3_admission:
  assumes "clients cm p = Some c"
  shows "(fst (UpdateClientActivity p s now cm) = None \<longleftrightarrow> LastSeq c < s)
    \<and> (LastSeq c < s \<longrightarrow>
          snd (UpdateClientActivity p s now cm)
            = cm\<lparr> clients := (clients cm)(p \<mapsto> c\<lparr> LastSeen := now, LastSeq := s \<rparr>) \<rparr>
        \<and> fst (UpdateClientActivity p s now' (snd (UpdateClientActivity p s now cm)))
            = Some ErrInvalidSequence)
    \<and> (\<not> LastSeq c < s \<longrightarrow>
          UpdateClientActivity p s now cm = (Some ErrInvalidSequence, cm))"
  using assms by (auto simp: UpdateClientActivity_def not_less)

theorem C3_admission_witness:
  "clients test_cm 1 = Some test_client
   \<and> LastSeq test_client < 5
   \<and> fst (UpdateClientActivity 1 5 100 test_cm) = None
   \<and> snd (UpdateClientActivity 1 5 100 test_cm)
       = test_cm\<lparr> clients := (clients test_cm)
           (1 \<mapsto> test_client\<lparr> LastSeen := 100, LastSeq := 5 \<rparr>) \<rparr>
   \<and> fst (UpdateClientActivity 1 5 200 (snd (UpdateClientActivity 1 5 100 test_cm)))
       = Some ErrInvalidSequence
   \<and> UpdateClientActivity 1 0 100 test_cm = (Some ErrInvalidSequence, test_cm)"
proof -
  have live: "clients test_cm 1 = Some test_client"
    by (simp add: test_cm_def)
  have fresh: "LastSeq test_client < 5" and stale: "\<not> LastSeq test_client < 0"
    by (simp_all add: test_client_def)
  have r1: "fst (UpdateClientActivity 1 5 100 test_cm) = None
      \<and> snd (UpdateClientActivity 1 5 100 test_cm)
          = test_cm\<lparr> clients := (clients test_cm)
              (1 \<mapsto> test_client\<lparr> LastSeen := 100, LastSeq := 5 \<rparr>) \<rparr>
      \<and> fst (UpdateClientActivity 1 5 200 (snd (UpdateClientActivity 1 5 100 test_cm)))
          = Some ErrInvalidSequence"
    using C3_admission [OF live, of 5 100 200] fresh by blast
  have r2: "UpdateClientActivity 1 0 100 test_cm = (Some ErrInvalidSequence, test_cm)"
    using C3_admission [OF live, of 0 100 200] stale by blast
  from live fresh r1 r2 show ?thesis by blast
qed

section \<open>Ingress: a Data packet that fails to decrypt\<close>

text \<open>
  C6. A Data packet addressed to a live peer whose sequence is admitted but whose payload
  fails AEAD decryption is dropped: \<open>ProcessPacket\<close> returns the decryption error, and
  the state afterwards is the state before with only \<open>LastSeq\<close> and \<open>LastSeen\<close> of that
  peer advanced (the admission step, which runs before decryption). Nothing is written to
  the TUN, nothing is sent over UDP, and no other field of the peer table changes.
\<close>

theorem C6_decrypt_failure_frame:
  assumes "DecodePacket data = Inr packet"
    and "clients (clientManager s) (ClientID packet) = Some c"
    and "LastSeq c < Sequence packet"
    and "DecryptPayload aead (Payload packet) (Key c) (Sequence packet) = Inl err"
  shows "ProcessPacket aead now data s =
     (Some err,
      s\<lparr> clientManager := (clientManager s)
           \<lparr> clients := (clients (clientManager s))
               (ClientID packet \<mapsto> c\<lparr> LastSeen := now, LastSeq := Sequence packet \<rparr>) \<rparr> \<rparr>)"
  using assms
  by (simp add: ProcessPacket_def GetClient_def UpdateClientActivity_def not_le [symmetric])

theorem C6_decrypt_failure_frame_witness:
  "DecodePacket (EncodePacket garbage_data_packet) = Inr garbage_data_packet
   \<and> clients (clientManager test_server) (ClientID garbage_data_packet) = Some test_client
   \<and> LastSeq test_client < Sequence garbage_data_packet
   \<and> DecryptPayload test_aead (Payload garbage_data_packet) (Key test_client)
        (Sequence garbage_data_packet) = Inl ErrDecryptionFailed
   \<and> ProcessPacket test_aead 100 (EncodePacket garbage_data_packet) test_server =
     (Some ErrDecryptionFailed,
      test_server\<lparr> clientManager := test_cm
           \<lparr> clients := (clients test_cm)
               (1 \<mapsto> test_client\<lparr> LastSeen := 100, LastSeq := 1 \<rparr>) \<rparr> \<rparr>)"
proof -
  have valid: "ValidatePacket garbage_data_packet = None"
    by (simp add: ValidatePacket_def ValidateMagic_def ValidateVersion_never ValidateType_iff
        ValidateLength_def garbage_data_packet_def)
  have dec: "DecodePacket (EncodePacket garbage_data_packet) = Inr garbage_data_packet"
    by (simp add: DecodePacket_def ParsePacket_EncodePacket valid)
  have live: "clients (clientManager test_server) (ClientID garbage_data_packet)
      = Some test_client"
    by (simp add: test_server_def test_cm_def garbage_data_packet_def)
  have fresh: "LastSeq test_client < Sequence garbage_data_packet"
    by (simp add: test_client_def garbage_data_packet_def)
  have fail: "DecryptPayload test_aead (Payload garbage_data_packet) (Key test_client)
      (Sequence garbage_data_packet) = Inl ErrDecryptionFailed"
    by (simp add: DecryptPayload_def test_aead_def garbage_data_packet_def test_client_def
        test_key_def)
  from C6_decrypt_failure_frame [OF dec live fresh fail, of 100] dec live fresh fail
  show ?thesis
    by (simp add: test_server_def garbage_data_packet_def)
qed

section \<open>Egress\<close>

lemma determine: "determineClient egress_datagram test_cm = Inr 1"
  by (simp add: determineClient_def egress_datagram_def Sprintf_dotted_def Itoa.simps
      GetClientByIP_def test_cm_def test_client_def)

lemma get1: "GetClient 1 test_cm = Inr test_client"
  by (simp add: GetClient_def test_cm_def)

text \<open>
  What a send that goes through puts on the socket, for every cipher: the seal of the
  whole encoded packet. When the address does not resolve or the socket refuses the
  datagram, nothing is sent and the error is returned.
\<close>

lemma createAndSendPacket_sent:
  assumes "length (Key client) = 32"
    and "ResolveUDPAddr s (Address client) = Some addr"
    and "\<not> udpWriteFails s addr
          (Seal aead (Key client) (GenerateNonce (LastSeq client + 1))
            (EncodePacket \<lparr> Magic = (0x46, 0x56, 0x50), Type = PacketTypeData,
               ClientID = ID client, Sequence = LastSeq client + 1,
               Length = of_nat (length ipData), Version = ProtocolVersionByte s,
               Payload = ipData \<rparr>))"
  shows "createAndSendPacket aead client ipData s =
     (None, s\<lparr> udpConn := udpConn s @
        [(addr,
          Seal aead (Key client) (GenerateNonce (LastSeq client + 1))
            (EncodePacket \<lparr> Magic = (0x46, 0x56, 0x50), Type = PacketTypeData,
               ClientID = ID client, Sequence = LastSeq client + 1,
               Length = of_nat (length ipData), Version = ProtocolVersionByte s,
               Payload = ipData \<rparr>))] \<rparr>)"
  using assms
  by (simp add: createAndSendPacket_def EncryptPayload_def sendToClient_def WriteToUDP_def Let_def)

lemma sendToClient_unresolved:
  "ResolveUDPAddr s (Address client) = None
   \<Longrightarrow> sendToClient client data s = (Some ErrResolveAddress, s)"
  by (simp add: sendToClient_def)

lemma sendToClient_write_error:
  "ResolveUDPAddr s (Address client) = Some addr \<Longrightarrow> udpWriteFails s addr data
   \<Longrightarrow> sendToClient client data s = (Some ErrUDPWrite, s)"
  by (simp add: sendToClient_def WriteToUDP_def)

lemma WriteToUDP_table: "clientManager (snd (WriteToUDP data addr s)) = clientManager s"
  by (simp add: WriteToUDP_def)

lemma createAndSendPacket_table:
  "clientManager (snd (createAndSendPacket aead client ipData s)) = clientManager s"
  by (simp add: createAndSendPacket_def EncryptPayload_def sendToClient_def WriteToUDP_table
      Let_def split: option.splits)

lemma ProcessOutgoingPacket_table:
  "clientManager (snd (ProcessOutgoingPacket aead s)) = clientManager s"
  by (auto simp: ProcessOutgoingPacket_def ReadPacket_def createAndSendPacket_table Let_def
      split: list.splits sum.splits)

lemma egress_step:
  "ProcessOutgoingPacket test_aead
     (test_server\<lparr> tunInterface := \<lparr> created = True, readQueue = egress_datagram # q,
        writeQueue = [] \<rparr>, udpConn := out \<rparr>)
   = (None, test_server\<lparr> tunInterface := \<lparr> created = True, readQueue = q,
        writeQueue = [] \<rparr>,
        udpConn := out @ [(''192.168.1.100:12345'',
           Seal test_aead test_key (GenerateNonce 1) (EncodePacket egress_plain_packet))] \<rparr>)"
proof -
  have k: "length test_key = 32"
    by (simp add: test_key_def)
  have len: "(of_nat (length egress_datagram) :: 16 word) = 20"
    by (simp add: egress_datagram_def)
  show ?thesis
    by (simp add: ProcessOutgoingPacket_def ReadPacket_def test_server_def determine
        get1 Let_def)
      (simp add: createAndSendPacket_def EncryptPayload_def sendToClient_def WriteToUDP_def
        egress_plain_packet_def MagicBytes_def Let_def test_client_def k len)
qed

text \<open>
  C1 does not hold of the code. \<open>createAndSendPacket\<close> builds the Data packet around
  the plaintext datagram, encodes it, and passes the whole encoding, header included, to
  \<open>EncryptPayload\<close>; what reaches the socket is the seal of header and datagram, not
  the encoding of a packet with a cleartext header and a sealed payload. Evaluated for one
  datagram routed to peer 1 (with the stand-in cipher): the bytes written are
  \<open>Seal key nonce (EncodePacket plain)\<close>, and they differ from the encoding the claim
  describes.
\<close>

theorem C1_egress_seals_whole_packet:
  "udpConn (snd (ProcessOutgoingPacket test_aead egress_server))
     = [(''192.168.1.100:12345'',
         Seal test_aead test_key (GenerateNonce 1) (EncodePacket egress_plain_packet))]
   \<and> Seal test_aead test_key (GenerateNonce 1) (EncodePacket egress_plain_packet)
     \<noteq> EncodePacket egress_expected_packet"
proof -
  have e: "egress_server = test_server\<lparr> tunInterface := \<lparr> created = True,
      readQueue = egress_datagram # [egress_datagram], writeQueue = [] \<rparr>, udpConn := [] \<rparr>"
    by (simp add: egress_server_def test_server_def)
  have a: "udpConn (snd (ProcessOutgoingPacket test_aead egress_server))
     = [(''192.168.1.100:12345'',
         Seal test_aead test_key (GenerateNonce 1) (EncodePacket egress_plain_packet))]"
    unfolding e egress_step by (simp add: test_server_def)
  have b: "Seal test_aead test_key (GenerateNonce 1) (EncodePacket egress_plain_packet)
     \<noteq> EncodePacket egress_expected_packet"
    by (simp add: test_aead_def test_key_def EncodePacket_def egress_plain_packet_def
        egress_expected_packet_def MagicBytes_def)
  from a b show ?thesis by blast
qed

text \<open>
  C2 does not hold of the code. \<open>createAndSendPacket\<close> stamps \<open>LastSeq + 1\<close> and
  never stores it: the peer table is the same after a send. Two datagrams sent in a row to
  peer 1 are both sealed under sequence 1 (the same key and nonce), and \<open>LastSeq\<close> is
  still 0 after the first send, which used sequence 1.
\<close>

theorem C2_outbound_sequence_reused:
  "clients (clientManager (snd (ProcessOutgoingPacket test_aead egress_server))) 1
     = Some test_client
   \<and> LastSeq test_client = 0
   \<and> udpConn (snd (ProcessOutgoingPacket test_aead
        (snd (ProcessOutgoingPacket test_aead egress_server))))
     = [(''192.168.1.100:12345'',
         Seal test_aead test_key (GenerateNonce 1) (EncodePacket egress_plain_packet)),
        (''192.168.1.100:12345'',
         Seal test_aead test_key (GenerateNonce 1) (EncodePacket egress_plain_packet))]"
proof -
  have e: "egress_server = test_server\<lparr> tunInterface := \<lparr> created = True,
      readQueue = egress_datagram # [egress_datagram], writeQueue = [] \<rparr>, udpConn := [] \<rparr>"
    by (simp add: egress_server_def test_server_def)
  have a: "clients (clientManager (snd (ProcessOutgoingPacket test_aead egress_server))) 1
     = Some test_client"
    by (simp add: ProcessOutgoingPacket_table egress_server_def test_server_def test_cm_def)
  have b: "LastSeq test_client = 0"
    by (simp add: test_client_def)
  have c: "udpConn (snd (ProcessOutgoingPacket test_aead
        (snd (ProcessOutgoingPacket test_aead egress_server))))
     = [(''192.168.1.100:12345'',
         Seal test_aead test_key (GenerateNonce 1) (EncodePacket egress_plain_packet)),
        (''192.168.1.100:12345'',
         Seal test_aead test_key (GenerateNonce 1) (EncodePacket egress_plain_packet))]"
    unfolding e egress_step snd_conv egress_step by (simp add: test_server_def)
  from a b c show ?thesis by blast
qed

section \<open>Loading the key registry\<close>

lemma decode_a: "DecodeString config_key_a = Inr [0xA1, 0xB2, 0xC3, 0xD4, 0xE5, 0xF6, 0x78, 0x90, 0x12, 0x34, 0x56, 0x78, 0x90, 0x12, 0x34, 0x56, 0x78, 0x90, 0xAB, 0xCD, 0xEF, 0x12, 0x34, 0x56, 0x78, 0x90, 0xAB, 0xCD, 0xEF, 0x12, 0x34, 0x56]"
  by (simp add: config_key_a_def fromHexChar_def)

lemma decode_b: "DecodeString config_key_b = Inr [0xFE, 0xDC, 0xBA, 0x09, 0x87, 0x65, 0x43, 0x21, 0xFE, 0xDC, 0xBA, 0x09, 0x87, 0x65, 0x43, 0x21, 0xFE, 0xDC, 0xBA, 0x09, 0x87, 0x65, 0x43, 0x21, 0xFE, 0xDC, 0xBA, 0x09, 0x87, 0x65, 0x43, 0x21]"
  by (simp add: config_key_b_def fromHexChar_def)

lemma load_clients_fails:
  "fst (load_clients cfg keys) \<noteq> None \<longleftrightarrow> (\<exists>c \<in> set cfg. \<not> valid_key (Key_yaml c))"
  by (induction cfg arbitrary: keys) (auto simp: valid_key_def split: sum.splits)

lemma load_clients_errors:
  "fst (load_clients cfg keys) = Some err
   \<Longrightarrow> err = ErrInvalidHexKey \<or> err = ErrWrongKeyLength"
  by (induction cfg arbitrary: keys) (auto split: sum.splits if_splits)

lemma load_clients_keys:
  "fst (load_clients cfg keys) = None \<Longrightarrow>
   snd (load_clients cfg keys) = keys ++ map_of (rev (map decoded_entry cfg))"
proof (induction cfg arbitrary: keys)
  case Nil
  then show ?case by simp
next
  case (Cons c cfg)
  from Cons.prems obtain key where k: "DecodeString (Key_yaml c) = Inr key" "length key = 32"
    by (auto split: sum.splits if_splits)
  with Cons.prems have "fst (load_clients cfg (keys(ID_yaml c \<mapsto> key))) = None"
    by simp
  then have IH: "snd (load_clients cfg (keys(ID_yaml c \<mapsto> key)))
      = keys(ID_yaml c \<mapsto> key) ++ map_of (rev (map decoded_entry cfg))"
    by (rule Cons.IH)
  have de: "decoded_entry c = (ID_yaml c, key)"
    by (simp add: decoded_entry_def k)
  have eq: "keys ++ map_of (rev (map decoded_entry (c # cfg)))
      = keys(ID_yaml c \<mapsto> key) ++ map_of (rev (map decoded_entry cfg))"
    by (simp add: de)
  have step: "snd (load_clients (c # cfg) keys)
      = snd (load_clients cfg (keys(ID_yaml c \<mapsto> key)))"
    using k by simp
  show ?case
    by (simp only: step IH eq)
qed

text \<open>
  The two failures ahead of the loop: a file that cannot be read and text that does not
  parse. Both return an error and leave the registry as it was.
\<close>

lemma LoadKeysFromConfig_read_error:
  "ReadFile configPath = Inl err
   \<Longrightarrow> LoadKeysFromConfig ReadFile Unmarshal configPath keys = (Some ErrReadConfig, keys)"
  by (simp add: LoadKeysFromConfig_def)

lemma LoadKeysFromConfig_parse_error:
  "ReadFile configPath = Inr data \<Longrightarrow> Unmarshal data = Inl err
   \<Longrightarrow> LoadKeysFromConfig ReadFile Unmarshal configPath keys = (Some ErrParseConfig, keys)"
  by (simp add: LoadKeysFromConfig_def)

text \<open>
  C7, as stated, fails on a duplicate id: the loop of \<open>LoadKeysFromConfig\<close> stores
  each decoded key under its id and never looks whether the id is already there. For a
  file with two entries for id 1 and two valid keys the load succeeds and keeps the
  second key.
\<close>

theorem C7_duplicate_id_counterexample:
  "fst (LoadKeysFromConfig test_ReadFile test_Unmarshal ''config.yaml'' Map.empty) = None
   \<and> snd (LoadKeysFromConfig test_ReadFile test_Unmarshal ''config.yaml'' Map.empty) 1
       = Some [0xFE, 0xDC, 0xBA, 0x09, 0x87, 0x65, 0x43, 0x21, 0xFE, 0xDC, 0xBA, 0x09, 0x87, 0x65, 0x43, 0x21, 0xFE, 0xDC, 0xBA, 0x09, 0x87, 0x65, 0x43, 0x21, 0xFE, 0xDC, 0xBA, 0x09, 0x87, 0x65, 0x43, 0x21]"
  by (simp add: LoadKeysFromConfig_def test_ReadFile_def test_Unmarshal_def
      duplicate_id_config_def decode_a decode_b)

text \<open>
  C7 (amended). Loading the configuration fails (an error is returned) whenever the
  clients list contains a key that is not valid hex or a key that does not decode to
  exactly 32 bytes. Two entries with the same id are not an error: when the file has been
  read and parsed and every key is valid, the load succeeds and the registry maps every
  id to the key of the last entry that carries it.
\<close>

theorem C7_load_keys:
  assumes "ReadFile configPath = Inr data"
    and "Unmarshal data = Inr config_clients"
  shows "((\<exists>c \<in> set config_clients. \<not> valid_key (Key_yaml c)) \<longrightarrow>
            fst (LoadKeysFromConfig ReadFile Unmarshal configPath keys) = Some ErrInvalidHexKey
          \<or> fst (LoadKeysFromConfig ReadFile Unmarshal configPath keys) = Some ErrWrongKeyLength)
   \<and> ((\<forall>c \<in> set config_clients. valid_key (Key_yaml c)) \<longrightarrow>
          LoadKeysFromConfig ReadFile Unmarshal configPath keys
            = (None, map_of (rev (map decoded_entry config_clients))))"
proof -
  have run: "LoadKeysFromConfig ReadFile Unmarshal configPath keys
      = load_clients config_clients Map.empty"
    using assms by (simp add: LoadKeysFromConfig_def)
  have bad: "fst (load_clients config_clients Map.empty) = Some ErrInvalidHexKey
      \<or> fst (load_clients config_clients Map.empty) = Some ErrWrongKeyLength"
    if "\<exists>c \<in> set config_clients. \<not> valid_key (Key_yaml c)"
  proof -
    from that load_clients_fails [of config_clients Map.empty]
    obtain err where "fst (load_clients config_clients Map.empty) = Some err"
      by auto
    with load_clients_errors [OF this] show ?thesis by auto
  qed
  have good: "load_clients config_clients Map.empty
      = (None, map_of (rev (map decoded_entry config_clients)))"
    if "\<forall>c \<in> set config_clients. valid_key (Key_yaml c)"
  proof -
    from that load_clients_fails [of config_clients Map.empty]
    have ok: "fst (load_clients config_clients Map.empty) = None"
      by auto
    from load_clients_keys [OF ok] ok show ?thesis
      by (simp add: prod_eq_iff)
  qed
  from bad good show ?thesis
    unfolding run by blast
qed

theorem C7_load_keys_witness:
  "test_ReadFile ''config.yaml'' = Inr duplicate_id_yaml
   \<and> test_Unmarshal duplicate_id_yaml = Inr duplicate_id_config
   \<and> LoadKeysFromConfig test_ReadFile test_Unmarshal ''config.yaml'' Map.empty
       = (None, map_of (rev (map decoded_entry duplicate_id_config)))
   \<and> fst (LoadKeysFromConfig (\<lambda>path. Inr ''clients: [{id: 3, key: 0g}]'')
            (\<lambda>data. Inr [\<lparr> ID_yaml = 3, Key_yaml = ''0g'' \<rparr>]) ''config.yaml'' Map.empty)
       = Some ErrInvalidHexKey
   \<and> fst (LoadKeysFromConfig (\<lambda>path. Inr ''clients: [{id: 3, key: 0a0b}]'')
            (\<lambda>data. Inr [\<lparr> ID_yaml = 3, Key_yaml = ''0a0b'' \<rparr>]) ''config.yaml'' Map.empty)
       = Some ErrWrongKeyLength"
proof -
  have rd: "test_ReadFile ''config.yaml'' = Inr duplicate_id_yaml"
    by (simp add: test_ReadFile_def)
  have um: "test_Unmarshal duplicate_id_yaml = Inr duplicate_id_config"
    by (simp add: test_Unmarshal_def)
  have good: "\<forall>c \<in> set duplicate_id_config. valid_key (Key_yaml c)"
    by (simp add: duplicate_id_config_def valid_key_def decode_a decode_b)
  from C7_load_keys [of test_ReadFile "''config.yaml''" duplicate_id_yaml test_Unmarshal
      duplicate_id_config Map.empty] rd um good
  have r1: "LoadKeysFromConfig test_ReadFile test_Unmarshal ''config.yaml'' Map.empty
       = (None, map_of (rev (map decoded_entry duplicate_id_config)))"
    by blast
  have bad1: "\<exists>c \<in> set [\<lparr> ID_yaml = 3, Key_yaml = ''0g'' \<rparr>]. \<not> valid_key (Key_yaml c)"
    by (simp add: valid_key_def fromHexChar_def)
  have bad2: "\<exists>c \<in> set [\<lparr> ID_yaml = 3, Key_yaml = ''0a0b'' \<rparr>]. \<not> valid_key (Key_yaml c)"
    by (simp add: valid_key_def fromHexChar_def)
  have e1: "fst (LoadKeysFromConfig (\<lambda>path. Inr ''clients: [{id: 3, key: 0g}]'')
            (\<lambda>data. Inr [\<lparr> ID_yaml = 3, Key_yaml = ''0g'' \<rparr>]) ''config.yaml'' Map.empty)
       \<noteq> Some ErrWrongKeyLength"
    by (simp add: LoadKeysFromConfig_def fromHexChar_def)
  have e2: "fst (LoadKeysFromConfig (\<lambda>path. Inr ''clients: [{id: 3, key: 0a0b}]'')
            (\<lambda>data. Inr [\<lparr> ID_yaml = 3, Key_yaml = ''0a0b'' \<rparr>]) ''config.yaml'' Map.empty)
       \<noteq> Some ErrInvalidHexKey"
    by (simp add: LoadKeysFromConfig_def fromHexChar_def)
  from C7_load_keys [of "\<lambda>path. Inr ''clients: [{id: 3, key: 0g}]''" "''config.yaml''"
      "''clients: [{id: 3, key: 0g}]''" "\<lambda>data. Inr [\<lparr> ID_yaml = 3, Key_yaml = ''0g'' \<rparr>]"
      "[\<lparr> ID_yaml = 3, Key_yaml = ''0g'' \<rparr>]" Map.empty] bad1 e1
  have r2: "fst (LoadKeysFromConfig (\<lambda>path. Inr ''clients: [{id: 3, key: 0g}]'')
            (\<lambda>data. Inr [\<lparr> ID_yaml = 3, Key_yaml = ''0g'' \<rparr>]) ''config.yaml'' Map.empty)
       = Some ErrInvalidHexKey"
    by blast
  from C7_load_keys [of "\<lambda>path. Inr ''clients: [{id: 3, key: 0a0b}]''" "''config.yaml''"
      "''clients: [{id: 3, key: 0a0b}]''"
      "\<lambda>data. Inr [\<lparr> ID_yaml = 3, Key_yaml = ''0a0b'' \<rparr>]"
      "[\<lparr> ID_yaml = 3, Key_yaml = ''0a0b'' \<rparr>]" Map.empty] bad2 e2
  have r3: "fst (LoadKeysFromConfig (\<lambda>path. Inr ''clients: [{id: 3, key: 0a0b}]'')
            (\<lambda>data. Inr [\<lparr> ID_yaml = 3, Key_yaml = ''0a0b'' \<rparr>]) ''config.yaml'' Map.empty)
       = Some ErrWrongKeyLength"
    by blast
  from rd um r1 r2 r3 show ?thesis by blast
qed

section \<open>Peer table: indices and allocation\<close>

lemma all_ids_set: "set all_ids = UNIV"
proof -
  have "b \<in> set all_ids" for b :: byte
  proof -
    have "unat b < 256" using unsigned_less [of b, where ?'a = nat] by simp
    moreover have "of_nat (unat b) = b" by simp
    ultimately show ?thesis
      unfolding all_ids_def by (metis atLeastLessThan_iff image_eqI le0 set_map set_upt)
  qed
  then show ?thesis by auto
qed

lemma all_ids_distinct: "distinct all_ids"
  unfolding all_ids_def
  by (auto simp: distinct_map inj_on_def word_of_nat_eq_iff take_bit_nat_eq_self)

lemma len_clients_card: "len_clients cm = card (dom (clients cm))"
proof -
  have "distinct (filter (\<lambda>i. clients cm i \<noteq> None) all_ids)"
    by (simp add: all_ids_distinct)
  then have "len_clients cm = card (set (filter (\<lambda>i. clients cm i \<noteq> None) all_ids))"
    unfolding len_clients_def by (rule distinct_card [symmetric])
  also have "set (filter (\<lambda>i. clients cm i \<noteq> None) all_ids) = dom (clients cm)"
    by (auto simp: all_ids_set dom_def)
  finally show ?thesis .
qed

lemma len_clients_small:
  assumes "clients cm i = None"
  shows "\<not> 256 \<le> len_clients cm"
proof -
  have "dom (clients cm) \<subseteq> UNIV - {i}" using assms by auto
  then have "card (dom (clients cm)) \<le> card (UNIV - {i} :: byte set)"
    by (intro card_mono) auto
  also have "\<dots> = 255" by (simp add: card_Diff_singleton card_word)
  finally show ?thesis by (simp add: len_clients_card)
qed

lemma findNextClientID_from_free:
  "findNextClientID_from cl i \<noteq> 0 \<Longrightarrow> cl (findNextClientID_from cl i) = None"
proof (induction cl i rule: findNextClientID_from.induct)
  case (1 cl i)
  then show ?case
    by (subst (asm) (1) findNextClientID_from.simps, subst findNextClientID_from.simps)
       (auto split: if_splits simp: findNextClientID_from.simps [of cl i])
qed

lemma indices_consistent_New: "indices_consistent NewClientManager"
  by (simp add: indices_consistent_def NewClientManager_def)

lemma findNextClientID_free:
  "findNextClientID cm \<noteq> 0 \<Longrightarrow> clients cm (findNextClientID cm) = None"
  unfolding findNextClientID_def by (rule findNextClientID_from_free)

lemma Sprintf_ip_nonempty: "Sprintf_ip n \<noteq> []"
  by (simp add: Sprintf_ip_def)

lemma assignNextIP_from_cases:
  "(assignNextIP_from m i = [] \<and> (\<forall>n. i \<le> n \<and> n \<le> 255 \<longrightarrow> m (Sprintf_ip n) \<noteq> None))
   \<or> (\<exists>n. i \<le> n \<and> n \<le> 255 \<and> assignNextIP_from m i = Sprintf_ip n
          \<and> m (Sprintf_ip n) = None
          \<and> (\<forall>k. i \<le> k \<and> k < n \<longrightarrow> m (Sprintf_ip k) \<noteq> None))"
proof (induction m i rule: assignNextIP_from.induct)
  case (1 m i)
  show ?case
  proof (cases "i \<le> 255")
    case False
    then show ?thesis by (auto simp add: assignNextIP_from.simps [of m i])
  next
    case le: True
    show ?thesis
    proof (cases "m (Sprintf_ip i) = None")
      case True
      with le have "assignNextIP_from m i = Sprintf_ip i"
        by (simp add: assignNextIP_from.simps [of m i])
      with le True show ?thesis by auto
    next
      case False
      with le have eq: "assignNextIP_from m i = assignNextIP_from m (i + 1)"
        by (auto simp add: assignNextIP_from.simps [of m i])
      from "1.IH" [OF le False] show ?thesis
      proof
        assume "assignNextIP_from m (i + 1) = [] \<and>
          (\<forall>n. i + 1 \<le> n \<and> n \<le> 255 \<longrightarrow> m (Sprintf_ip n) \<noteq> None)"
        with False eq have "assignNextIP_from m i = [] \<and>
          (\<forall>n. i \<le> n \<and> n \<le> 255 \<longrightarrow> m (Sprintf_ip n) \<noteq> None)"
          by (metis Suc_eq_plus1 Suc_leI le_neq_implies_less)
        then show ?thesis ..
      next
        assume "\<exists>n. i + 1 \<le> n \<and> n \<le> 255 \<and> assignNextIP_from m (i + 1) = Sprintf_ip n
          \<and> m (Sprintf_ip n) = None
          \<and> (\<forall>k. i + 1 \<le> k \<and> k < n \<longrightarrow> m (Sprintf_ip k) \<noteq> None)"
        then obtain n where n: "i + 1 \<le> n" "n \<le> 255"
          "assignNextIP_from m (i + 1) = Sprintf_ip n" "m (Sprintf_ip n) = None"
          "\<forall>k. i + 1 \<le> k \<and> k < n \<longrightarrow> m (Sprintf_ip k) \<noteq> None"
          by blast
        have "\<forall>k. i \<le> k \<and> k < n \<longrightarrow> m (Sprintf_ip k) \<noteq> None"
        proof (intro allI impI)
          fix k assume k: "i \<le> k \<and> k < n"
          show "m (Sprintf_ip k) \<noteq> None"
          proof (cases "k = i")
            case True with False show ?thesis by simp
          next
            case False
            with k have "i + 1 \<le> k \<and> k < n" by arith
            with n(5) show ?thesis by blast
          qed
        qed
        with n eq have "i \<le> n \<and> n \<le> 255 \<and> assignNextIP_from m i = Sprintf_ip n
          \<and> m (Sprintf_ip n) = None
          \<and> (\<forall>k. i \<le> k \<and> k < n \<longrightarrow> m (Sprintf_ip k) \<noteq> None)"
          by simp
        then show ?thesis by blast
      qed
    qed
  qed
qed

lemma assignNextIP_free:
  "assignNextIP cm \<noteq> [] \<Longrightarrow> ipToClient cm (assignNextIP cm) = None"
  unfolding assignNextIP_def
  using assignNextIP_from_cases [of "ipToClient cm" 2] by auto

text \<open>What a successful \<open>AddClient\<close> does, and when it succeeds.\<close>

lemma AddClient_result:
  "(\<exists>err. AddClient key address now cm = (Inl err, cm))
   \<or> (findNextClientID cm \<noteq> 0 \<and> assignNextIP cm \<noteq> []
       \<and> keyToClient cm (Sprintf_x key) = None \<and> \<not> 256 \<le> len_clients cm
       \<and> AddClient key address now cm =
        (Inr \<lparr> ID = findNextClientID cm, IP = assignNextIP cm, Key = key, Address = address,
               Connected = True, LastSeen = now, LastSeq = 0 \<rparr>,
         cm\<lparr> clients := (clients cm)(findNextClientID cm \<mapsto>
               \<lparr> ID = findNextClientID cm, IP = assignNextIP cm, Key = key,
                 Address = address, Connected = True, LastSeen = now, LastSeq = 0 \<rparr>),
             ipToClient := (ipToClient cm)(assignNextIP cm \<mapsto> findNextClientID cm),
             keyToClient := (keyToClient cm)(Sprintf_x key \<mapsto> findNextClientID cm) \<rparr>))"
  by (simp add: AddClient_def Let_def)

lemma AddClient_cases:
  obtains (full) err where "AddClient key address now cm = (Inl err, cm)"
  | (added) "findNextClientID cm \<noteq> 0" "assignNextIP cm \<noteq> []"
      "keyToClient cm (Sprintf_x key) = None" "\<not> 256 \<le> len_clients cm"
      "AddClient key address now cm =
        (Inr \<lparr> ID = findNextClientID cm, IP = assignNextIP cm, Key = key, Address = address,
               Connected = True, LastSeen = now, LastSeq = 0 \<rparr>,
         cm\<lparr> clients := (clients cm)(findNextClientID cm \<mapsto>
               \<lparr> ID = findNextClientID cm, IP = assignNextIP cm, Key = key,
                 Address = address, Connected = True, LastSeen = now, LastSeq = 0 \<rparr>),
             ipToClient := (ipToClient cm)(assignNextIP cm \<mapsto> findNextClientID cm),
             keyToClient := (keyToClient cm)(Sprintf_x key \<mapsto> findNextClientID cm) \<rparr>)"
  apply (insert AddClient_result [of key address now cm])
  apply (erule disjE)
   apply (erule exE)
   apply (erule full)
  apply (elim conjE)
  apply (erule (4) added)
  done

lemma icD_id: "indices_consistent cm \<Longrightarrow> clients cm i = Some c \<Longrightarrow> ID c = i"
  and icD_ip: "indices_consistent cm \<Longrightarrow> clients cm i = Some c
      \<Longrightarrow> ipToClient cm (IP c) = Some i"
  and icD_key: "indices_consistent cm \<Longrightarrow> clients cm i = Some c
      \<Longrightarrow> keyToClient cm (Sprintf_x (Key c)) = Some i"
  and icD_ip_live: "indices_consistent cm \<Longrightarrow> ipToClient cm a = Some i
      \<Longrightarrow> \<exists>c. clients cm i = Some c \<and> IP c = a"
  and icD_key_live: "indices_consistent cm \<Longrightarrow> keyToClient cm h = Some i
      \<Longrightarrow> \<exists>c. clients cm i = Some c \<and> Sprintf_x (Key c) = h"
  by (simp_all add: indices_consistent_def)

lemma indices_consistent_insert:
  assumes inv: "indices_consistent cm"
    and id: "clients cm i = None" and ip: "ipToClient cm a = None"
    and kh: "keyToClient cm (Sprintf_x k) = None"
    and c: "ID c = i" "IP c = a" "Key c = k"
  shows "indices_consistent (cm\<lparr> clients := (clients cm)(i \<mapsto> c),
             ipToClient := (ipToClient cm)(a \<mapsto> i),
             keyToClient := (keyToClient cm)(Sprintf_x k \<mapsto> i) \<rparr>)"
  unfolding indices_consistent_def
proof (intro conjI allI impI)
  fix j d
  assume "clients (cm\<lparr> clients := (clients cm)(i \<mapsto> c),
             ipToClient := (ipToClient cm)(a \<mapsto> i),
             keyToClient := (keyToClient cm)(Sprintf_x k \<mapsto> i) \<rparr>) j = Some d"
  then have d: "(j = i \<and> d = c) \<or> (j \<noteq> i \<and> clients cm j = Some d)"
    by (auto split: if_splits)
  show "ID d = j" using d c icD_id [OF inv] by auto
  show "ipToClient (cm\<lparr> clients := (clients cm)(i \<mapsto> c),
             ipToClient := (ipToClient cm)(a \<mapsto> i),
             keyToClient := (keyToClient cm)(Sprintf_x k \<mapsto> i) \<rparr>) (IP d) = Some j"
    using d c ip icD_ip [OF inv] by fastforce
  show "keyToClient (cm\<lparr> clients := (clients cm)(i \<mapsto> c),
             ipToClient := (ipToClient cm)(a \<mapsto> i),
             keyToClient := (keyToClient cm)(Sprintf_x k \<mapsto> i) \<rparr>) (Sprintf_x (Key d)) = Some j"
    using d c kh icD_key [OF inv] by fastforce
next
  fix b j
  assume "ipToClient (cm\<lparr> clients := (clients cm)(i \<mapsto> c),
             ipToClient := (ipToClient cm)(a \<mapsto> i),
             keyToClient := (keyToClient cm)(Sprintf_x k \<mapsto> i) \<rparr>) b = Some j"
  then have "(b = a \<and> j = i) \<or> (b \<noteq> a \<and> ipToClient cm b = Some j)"
    by (auto split: if_splits)
  then show "\<exists>d. clients (cm\<lparr> clients := (clients cm)(i \<mapsto> c),
             ipToClient := (ipToClient cm)(a \<mapsto> i),
             keyToClient := (keyToClient cm)(Sprintf_x k \<mapsto> i) \<rparr>) j = Some d \<and> IP d = b"
    using c id icD_ip_live [OF inv] by fastforce
next
  fix h j
  assume "keyToClient (cm\<lparr> clients := (clients cm)(i \<mapsto> c),
             ipToClient := (ipToClient cm)(a \<mapsto> i),
             keyToClient := (keyToClient cm)(Sprintf_x k \<mapsto> i) \<rparr>) h = Some j"
  then have "(h = Sprintf_x k \<and> j = i) \<or> (h \<noteq> Sprintf_x k \<and> keyToClient cm h = Some j)"
    by (auto split: if_splits)
  then show "\<exists>d. clients (cm\<lparr> clients := (clients cm)(i \<mapsto> c),
             ipToClient := (ipToClient cm)(a \<mapsto> i),
             keyToClient := (keyToClient cm)(Sprintf_x k \<mapsto> i) \<rparr>) j = Some d
         \<and> Sprintf_x (Key d) = h"
    using c id icD_key_live [OF inv] by fastforce
qed

lemma indices_consistent_AddClient:
  assumes "indices_consistent cm"
  shows "indices_consistent (snd (AddClient key address now cm))"
proof (cases key address now cm rule: AddClient_cases)
  case (full err)
  with assms show ?thesis by simp
next
  case added
  show ?thesis
    unfolding added(5) snd_conv
    by (rule indices_consistent_insert [OF assms findNextClientID_free [OF added(1)]
          assignNextIP_free [OF added(2)] added(3)]) simp_all
qed

lemma indices_consistent_delete:
  assumes inv: "indices_consistent cm" and live: "clients cm i = Some c"
  shows "indices_consistent (delete_client i c cm)"
  unfolding indices_consistent_def delete_client_def
proof (intro conjI allI impI)
  fix j d
  assume "clients (cm\<lparr> clients := (clients cm)(i := None),
         ipToClient := (ipToClient cm)(IP c := None),
         keyToClient := (keyToClient cm)(Sprintf_x (Key c) := None) \<rparr>) j = Some d"
  then have d: "j \<noteq> i" "clients cm j = Some d"
    by (auto split: if_splits)
  from d live icD_ip [OF inv] icD_key [OF inv]
  have "IP d \<noteq> IP c" "Sprintf_x (Key d) \<noteq> Sprintf_x (Key c)"
    by (metis option.inject)+
  with d icD_id [OF inv] icD_ip [OF inv] icD_key [OF inv] show "ID d = j"
    and "ipToClient (cm\<lparr> clients := (clients cm)(i := None),
         ipToClient := (ipToClient cm)(IP c := None),
         keyToClient := (keyToClient cm)(Sprintf_x (Key c) := None) \<rparr>) (IP d) = Some j"
    and "keyToClient (cm\<lparr> clients := (clients cm)(i := None),
         ipToClient := (ipToClient cm)(IP c := None),
         keyToClient := (keyToClient cm)(Sprintf_x (Key c) := None) \<rparr>) (Sprintf_x (Key d)) = Some j"
    by auto
next
  fix b j
  assume "ipToClient (cm\<lparr> clients := (clients cm)(i := None),
         ipToClient := (ipToClient cm)(IP c := None),
         keyToClient := (keyToClient cm)(Sprintf_x (Key c) := None) \<rparr>) b = Some j"
  then have b: "b \<noteq> IP c" "ipToClient cm b = Some j"
    by (auto split: if_splits)
  with icD_ip_live [OF inv] obtain d where d: "clients cm j = Some d" "IP d = b"
    by blast
  with b live have "j \<noteq> i" by auto
  with d show "\<exists>d. clients (cm\<lparr> clients := (clients cm)(i := None),
         ipToClient := (ipToClient cm)(IP c := None),
         keyToClient := (keyToClient cm)(Sprintf_x (Key c) := None) \<rparr>) j = Some d \<and> IP d = b"
    by simp
next
  fix h j
  assume "keyToClient (cm\<lparr> clients := (clients cm)(i := None),
         ipToClient := (ipToClient cm)(IP c := None),
         keyToClient := (keyToClient cm)(Sprintf_x (Key c) := None) \<rparr>) h = Some j"
  then have h: "h \<noteq> Sprintf_x (Key c)" "keyToClient cm h = Some j"
    by (auto split: if_splits)
  with icD_key_live [OF inv] obtain d where d: "clients cm j = Some d" "Sprintf_x (Key d) = h"
    by blast
  with h live have "j \<noteq> i" by auto
  with d show "\<exists>d. clients (cm\<lparr> clients := (clients cm)(i := None),
         ipToClient := (ipToClient cm)(IP c := None),
         keyToClient := (keyToClient cm)(Sprintf_x (Key c) := None) \<rparr>) j = Some d
       \<and> Sprintf_x (Key d) = h"
    by simp
qed

lemma indices_consistent_RemoveClient:
  "indices_consistent cm \<Longrightarrow> indices_consistent (snd (RemoveClient i cm))"
  by (auto simp: RemoveClient_def indices_consistent_delete split: option.splits)

lemma indices_consistent_UpdateClientActivity:
  assumes "indices_consistent cm"
  shows "indices_consistent (snd (UpdateClientActivity i s now cm))"
proof (cases "clients cm i")
  case None
  with assms show ?thesis by (simp add: UpdateClientActivity_def)
next
  case (Some c)
  show ?thesis
  proof (cases "s \<le> LastSeq c")
    case True
    with Some assms show ?thesis by (simp add: UpdateClientActivity_def)
  next
    case False
    with Some have eq: "snd (UpdateClientActivity i s now cm)
        = cm\<lparr> clients := (clients cm)(i \<mapsto> c\<lparr> LastSeen := now, LastSeq := s \<rparr>) \<rparr>"
      by (simp add: UpdateClientActivity_def)
    from Some icD_id [OF assms] icD_ip [OF assms] icD_key [OF assms]
      icD_ip_live [OF assms] icD_key_live [OF assms]
    show ?thesis
      unfolding eq indices_consistent_def
      by (auto split: if_splits) (metis option.inject)+
  qed
qed

lemma indices_consistent_remove_all:
  "indices_consistent cm \<Longrightarrow> indices_consistent (remove_all ids cm)"
  by (induction ids arbitrary: cm) (auto simp: indices_consistent_delete split: option.splits)

lemma indices_consistent_CheckTimeouts:
  "indices_consistent cm \<Longrightarrow> indices_consistent (CheckTimeouts order now cm)"
  by (simp add: CheckTimeouts_def indices_consistent_remove_all)

lemma findNextClientID_from_spec:
  "i \<noteq> 0 \<Longrightarrow>
   (findNextClientID_from cl i = 0 \<and> (\<forall>j. i \<le> j \<longrightarrow> cl j \<noteq> None))
   \<or> (findNextClientID_from cl i \<noteq> 0 \<and> i \<le> findNextClientID_from cl i
       \<and> cl (findNextClientID_from cl i) = None
       \<and> (\<forall>j. i \<le> j \<and> j < findNextClientID_from cl i \<longrightarrow> cl j \<noteq> None))"
proof (induction cl i rule: findNextClientID_from.induct)
  case (1 cl i)
  note nz = \<open>i \<noteq> 0\<close>
  show ?case
  proof (cases "cl i = None")
    case True
    with nz have "findNextClientID_from cl i = i"
      by (simp add: findNextClientID_from.simps [of cl i])
    with True nz show ?thesis by auto
  next
    case occupied: False
    with nz have eq: "findNextClientID_from cl i = findNextClientID_from cl (i + 1)"
      by (auto simp add: findNextClientID_from.simps [of cl i])
    show ?thesis
    proof (cases "i + 1 = 0")
      case True
      then have r: "findNextClientID_from cl i = 0"
        by (simp add: eq findNextClientID_from.simps [of cl 0])
      from True have "i = - 1"
        by (simp add: eq_neg_iff_add_eq_0)
      then have "\<forall>j. i \<le> j \<longrightarrow> j = i"
        by (auto simp: word_order.extremum_unique)
      with occupied r show ?thesis by auto
    next
      case False
      then have u: "unat (i + 1) = unat i + 1"
        using unatSuc [of i] by (simp add: add.commute)
      from "1.IH" [OF nz occupied False]
      show ?thesis
      proof
        assume a: "findNextClientID_from cl (i + 1) = 0
          \<and> (\<forall>j. i + 1 \<le> j \<longrightarrow> cl j \<noteq> None)"
        have "\<forall>j. i \<le> j \<longrightarrow> cl j \<noteq> None"
        proof (intro allI impI)
          fix j assume "i \<le> j"
          then have "j = i \<or> i + 1 \<le> j"
            using u by (auto simp: word_le_nat_alt word_unat_eq_iff)
          with a occupied show "cl j \<noteq> None" by auto
        qed
        with a eq show ?thesis by simp
      next
        assume a: "findNextClientID_from cl (i + 1) \<noteq> 0
          \<and> i + 1 \<le> findNextClientID_from cl (i + 1)
          \<and> cl (findNextClientID_from cl (i + 1)) = None
          \<and> (\<forall>j. i + 1 \<le> j \<and> j < findNextClientID_from cl (i + 1) \<longrightarrow> cl j \<noteq> None)"
        have le: "i \<le> findNextClientID_from cl (i + 1)"
          using a u by (auto simp: word_le_nat_alt)
        have "\<forall>j. i \<le> j \<and> j < findNextClientID_from cl (i + 1) \<longrightarrow> cl j \<noteq> None"
        proof (intro allI impI)
          fix j assume j: "i \<le> j \<and> j < findNextClientID_from cl (i + 1)"
          then have "j = i \<or> i + 1 \<le> j"
            using u by (auto simp: word_le_nat_alt word_unat_eq_iff)
          with a occupied j show "cl j \<noteq> None" by auto
        qed
        with a le eq show ?thesis by simp
      qed
    qed
  qed
qed

lemma findNextClientID_zero:
  assumes "findNextClientID cm = 0"
  shows "\<forall>j. j \<noteq> 0 \<longrightarrow> clients cm j \<noteq> None"
proof -
  have "(1::byte) \<noteq> 0" by simp
  from findNextClientID_from_spec [OF this, of "clients cm"] assms
  have "\<forall>j. 1 \<le> j \<longrightarrow> clients cm j \<noteq> None"
    by (simp add: findNextClientID_def)
  moreover have "1 \<le> j" if "j \<noteq> 0" for j :: byte
    using that by (simp add: word_le_nat_alt word_unat_eq_iff) 
  ultimately show ?thesis by blast
qed

lemma findNextClientID_least:
  assumes "findNextClientID cm \<noteq> 0"
  shows "clients cm (findNextClientID cm) = None
    \<and> (\<forall>j. j \<noteq> 0 \<and> j < findNextClientID cm \<longrightarrow> clients cm j \<noteq> None)"
proof -
  have "(1::byte) \<noteq> 0" by simp
  from findNextClientID_from_spec [OF this, of "clients cm"] assms
  have a: "clients cm (findNextClientID cm) = None"
    and b: "\<forall>j. 1 \<le> j \<and> j < findNextClientID cm \<longrightarrow> clients cm j \<noteq> None"
    by (simp_all add: findNextClientID_def)
  have "1 \<le> j" if "j \<noteq> 0" for j :: byte
    using that by (simp add: word_le_nat_alt word_unat_eq_iff) 
  with a b show ?thesis by blast
qed

lemma digits_value_append:
  "digits_value acc (xs @ [c]) = digits_value acc xs * 10 + (of_char c - 48)"
  by (induction xs arbitrary: acc) simp_all

lemma digit_char_value: "d < 10 \<Longrightarrow> of_char (''0123456789'' ! d) - 48 = (d::nat)"
proof -
  assume "d < 10"
  then have "d \<in> {0, 1, 2, 3, 4, 5, 6, 7, 8, 9}" by auto
  then show ?thesis by (elim insertE emptyE) simp_all
qed

lemma digits_value_Itoa: "digits_value 0 (Itoa n) = n"
proof (induction n rule: Itoa.induct)
  case (1 n)
  show ?case
  proof (cases "n < 10")
    case True
    then show ?thesis
      by (simp add: Itoa.simps [of n] digit_char_value)
  next
    case False
    then show ?thesis
      using "1.IH" by (simp add: Itoa.simps [of n] digits_value_append digit_char_value)
  qed
qed

lemma Itoa_inj: "Itoa a = Itoa b \<Longrightarrow> a = b"
  by (metis digits_value_Itoa)

lemma Sprintf_ip_inj: "Sprintf_ip a = Sprintf_ip b \<Longrightarrow> a = b"
  by (simp add: Sprintf_ip_def Itoa_inj)

lemma card_ip_pool: "card ip_pool = 254"
proof -
  have "inj_on Sprintf_ip {2..255}"
    by (auto simp: inj_on_def dest: Sprintf_ip_inj)
  then have "card ip_pool = card {2..255::nat}"
    unfolding ip_pool_def by (rule card_image)
  then show ?thesis by simp
qed

lemma finite_ip_pool: "finite ip_pool"
  by (simp add: ip_pool_def)

lemma dom_ipToClient_image:
  assumes "indices_consistent cm"
  shows "dom (ipToClient cm) = (\<lambda>i. IP (the (clients cm i))) ` dom (clients cm)"
proof (intro set_eqI iffI)
  fix a assume "a \<in> dom (ipToClient cm)"
  then obtain i where "ipToClient cm a = Some i" by auto
  from icD_ip_live [OF assms this] obtain c where "clients cm i = Some c" "IP c = a"
    by blast
  then show "a \<in> (\<lambda>i. IP (the (clients cm i))) ` dom (clients cm)"
    by force
next
  fix a assume "a \<in> (\<lambda>i. IP (the (clients cm i))) ` dom (clients cm)"
  then obtain i c where "clients cm i = Some c" "a = IP c" by auto
  with icD_ip [OF assms] show "a \<in> dom (ipToClient cm)" by auto
qed

lemma card_clients_ips:
  assumes "indices_consistent cm"
  shows "card (dom (clients cm)) = card (dom (ipToClient cm))"
proof -
  have "inj_on (\<lambda>i. IP (the (clients cm i))) (dom (clients cm))"
  proof (rule inj_onI)
    fix i j
    assume "i \<in> dom (clients cm)" "j \<in> dom (clients cm)"
      and eq: "IP (the (clients cm i)) = IP (the (clients cm j))"
    then obtain ci cj where c: "clients cm i = Some ci" "clients cm j = Some cj" by auto
    with eq have "IP ci = IP cj" by simp
    with icD_ip [OF assms c(1)] icD_ip [OF assms c(2)] show "i = j" by simp
  qed
  then show ?thesis
    unfolding dom_ipToClient_image [OF assms] by (rule card_image [symmetric])
qed

lemma table_inv_card_le:
  assumes "table_inv cm"
  shows "card (dom (clients cm)) \<le> 254"
proof -
  from assms have "dom (ipToClient cm) \<subseteq> ip_pool" and ic: "indices_consistent cm"
    by (simp_all add: table_inv_def)
  then have "card (dom (ipToClient cm)) \<le> card ip_pool"
    by (intro card_mono finite_ip_pool)
  then show ?thesis by (simp add: card_clients_ips [OF ic] card_ip_pool)
qed

lemma assignNextIP_pool:
  "assignNextIP cm \<noteq> [] \<Longrightarrow> assignNextIP cm \<in> ip_pool"
  unfolding assignNextIP_def ip_pool_def
  using assignNextIP_from_cases [of "ipToClient cm" 2] by auto

lemma assignNextIP_empty_iff:
  assumes "table_inv cm"
  shows "assignNextIP cm = [] \<longleftrightarrow> card (dom (clients cm)) = 254"
proof -
  from assms have sub: "dom (ipToClient cm) \<subseteq> ip_pool" and ic: "indices_consistent cm"
    by (simp_all add: table_inv_def)
  have "assignNextIP cm = [] \<longleftrightarrow> ip_pool \<subseteq> dom (ipToClient cm)"
  proof
    assume "assignNextIP cm = []"
    with assignNextIP_from_cases [of "ipToClient cm" 2]
    have "\<forall>n. 2 \<le> n \<and> n \<le> 255 \<longrightarrow> ipToClient cm (Sprintf_ip n) \<noteq> None"
      by (auto simp: assignNextIP_def dest: Sprintf_ip_nonempty [symmetric, THEN notE])
    then show "ip_pool \<subseteq> dom (ipToClient cm)"
      by (auto simp: ip_pool_def)
  next
    assume full: "ip_pool \<subseteq> dom (ipToClient cm)"
    show "assignNextIP cm = []"
    proof (rule ccontr)
      assume ne: "assignNextIP cm \<noteq> []"
      from assignNextIP_pool [OF ne] full assignNextIP_free [OF ne] show False by auto
    qed
  qed
  also have "\<dots> \<longleftrightarrow> dom (ipToClient cm) = ip_pool"
    using sub by auto
  also have "\<dots> \<longleftrightarrow> card (dom (ipToClient cm)) = 254"
    using card_subset_eq [OF finite_ip_pool sub] card_ip_pool by auto
  finally show ?thesis by (simp add: card_clients_ips [OF ic])
qed

lemma table_inv_findNextClientID:
  assumes "table_inv cm"
  shows "findNextClientID cm \<noteq> 0"
proof
  assume "findNextClientID cm = 0"
  from findNextClientID_zero [OF this] have "UNIV - {0} \<subseteq> dom (clients cm)"
    by auto
  then have "card (UNIV - {0} :: byte set) \<le> card (dom (clients cm))"
    by (intro card_mono) auto
  moreover have "card (UNIV - {0} :: byte set) = 255"
    by (simp add: card_Diff_singleton card_word)
  ultimately show False using table_inv_card_le [OF assms] by simp
qed

lemma table_inv_len_clients:
  assumes "table_inv cm"
  shows "\<not> 256 \<le> len_clients cm"
  using table_inv_card_le [OF assms] by (simp add: len_clients_card)

lemma table_inv_New: "table_inv NewClientManager"
  by (simp add: table_inv_def indices_consistent_New) (simp add: NewClientManager_def)

lemma table_inv_AddClient:
  assumes "table_inv cm"
  shows "table_inv (snd (AddClient key address now cm))"
proof (cases key address now cm rule: AddClient_cases)
  case (full err)
  with assms show ?thesis by simp
next
  case added
  from assms have "clients cm 0 = None" "dom (ipToClient cm) \<subseteq> ip_pool"
    by (simp_all add: table_inv_def)
  with added(1) assignNextIP_pool [OF added(2)]
  have "clients (snd (AddClient key address now cm)) 0 = None
      \<and> dom (ipToClient (snd (AddClient key address now cm))) \<subseteq> ip_pool"
    unfolding added(5) by auto
  moreover from assms have "indices_consistent (snd (AddClient key address now cm))"
    by (simp add: table_inv_def indices_consistent_AddClient)
  ultimately show ?thesis by (simp add: table_inv_def)
qed

lemma table_inv_delete:
  assumes "table_inv cm" "clients cm i = Some c"
  shows "table_inv (delete_client i c cm)"
proof -
  from assms have "indices_consistent (delete_client i c cm)"
    by (simp add: table_inv_def indices_consistent_delete)
  moreover from assms have "clients (delete_client i c cm) 0 = None"
    and "dom (ipToClient (delete_client i c cm)) \<subseteq> ip_pool"
    by (auto simp: table_inv_def delete_client_def split: if_splits)
  ultimately show ?thesis by (simp add: table_inv_def)
qed

lemma table_inv_remove_all:
  "table_inv cm \<Longrightarrow> table_inv (remove_all ids cm)"
  by (induction ids arbitrary: cm) (auto simp: table_inv_delete split: option.splits)

lemma table_inv_UpdateClientActivity:
  assumes "table_inv cm"
  shows "table_inv (snd (UpdateClientActivity i s now cm))"
proof -
  from assms have "indices_consistent (snd (UpdateClientActivity i s now cm))"
    by (simp add: table_inv_def indices_consistent_UpdateClientActivity)
  moreover from assms have "clients (snd (UpdateClientActivity i s now cm)) 0 = None"
    and "dom (ipToClient (snd (UpdateClientActivity i s now cm))) \<subseteq> ip_pool"
    by (auto simp: table_inv_def UpdateClientActivity_def split: option.splits if_splits)
  ultimately show ?thesis by (simp add: table_inv_def)
qed

lemma table_inv_apply_op: "table_inv cm \<Longrightarrow> table_inv (apply_op op cm)"
  by (cases op)
    (auto simp: table_inv_AddClient table_inv_UpdateClientActivity CheckTimeouts_def
      table_inv_remove_all RemoveClient_def table_inv_delete split: option.splits)

lemma table_inv_run_ops: "table_inv cm \<Longrightarrow> table_inv (run_ops ops cm)"
  by (induction ops arbitrary: cm) (simp_all add: table_inv_apply_op)

lemma table_inv_reachable: "table_inv (run_ops ops NewClientManager)"
  by (rule table_inv_run_ops [OF table_inv_New])

lemma run_ops_append: "run_ops (xs @ ys) cm = run_ops ys (run_ops xs cm)"
  by (induction xs arbitrary: cm) simp_all

section \<open>Peer table: claims\<close>

lemma eval_add1: "AddClient test_key ''192.168.1.100:12345'' 0 NewClientManager = (Inr test_client, test_cm)"
proof -
  have l: "\<not> 256 \<le> len_clients NewClientManager"
    by (rule len_clients_small [of _ 0]) (simp add: NewClientManager_def)
  have f: "findNextClientID NewClientManager = 1"
    by (simp add: findNextClientID_def findNextClientID_from.simps NewClientManager_def)
  have a: "assignNextIP NewClientManager = ''10.0.0.2''"
    by (simp add: assignNextIP_def assignNextIP_from.simps NewClientManager_def Sprintf_ip_def
        Itoa.simps)
  show ?thesis
    by (simp add: AddClient_def l f a Let_def)
      (simp add: NewClientManager_def test_cm_def test_client_def)
qed

text \<open>
  C10. The empty table has consistent indices, and each of \<open>AddClient\<close>,
  \<open>RemoveClient\<close>, \<open>UpdateClientActivity\<close> and \<open>CheckTimeouts\<close> (for any
  iteration order of the map) keeps them consistent: every live client \<open>c\<close> is found
  under \<open>c.IP\<close> in \<open>ipToClient\<close> and under the hex form of \<open>c.Key\<close> in
  \<open>keyToClient\<close>, both giving \<open>c.ID\<close>, and neither auxiliary map has an entry that
  does not belong to a live client.
\<close>

theorem C10_indices_preserved:
  "indices_consistent NewClientManager
   \<and> (indices_consistent cm \<longrightarrow>
         indices_consistent (snd (AddClient key address now cm))
       \<and> indices_consistent (snd (RemoveClient i cm))
       \<and> indices_consistent (snd (UpdateClientActivity i s now cm))
       \<and> indices_consistent (CheckTimeouts order now cm))"
  by (simp add: indices_consistent_New indices_consistent_AddClient
      indices_consistent_RemoveClient indices_consistent_UpdateClientActivity
      indices_consistent_CheckTimeouts)

theorem C10_indices_preserved_witness:
  "indices_consistent NewClientManager
   \<and> snd (AddClient test_key ''192.168.1.100:12345'' 0 NewClientManager) = test_cm
   \<and> indices_consistent test_cm
   \<and> indices_consistent (snd (RemoveClient 1 test_cm))
   \<and> indices_consistent (snd (UpdateClientActivity 1 7 50 test_cm))
   \<and> indices_consistent (CheckTimeouts [1] 50 test_cm)
   \<and> clients (CheckTimeouts [1] 1800000000001 test_cm) 1 = None
   \<and> indices_consistent (CheckTimeouts [1] 1800000000001 test_cm)"
proof -
  have new: "indices_consistent NewClientManager"
    using C10_indices_preserved [of NewClientManager] by blast
  have add: "snd (AddClient test_key ''192.168.1.100:12345'' 0 NewClientManager) = test_cm"
    by (simp add: eval_add1)
  have "indices_consistent (snd (AddClient test_key ''192.168.1.100:12345'' 0 NewClientManager))"
    using C10_indices_preserved [of NewClientManager test_key "''192.168.1.100:12345''" 0] new
    by blast
  then have t: "indices_consistent test_cm"
    by (simp only: add)
  have evicted: "clients (CheckTimeouts [1] 1800000000001 test_cm) 1 = None"
    by (simp add: CheckTimeouts_def timed_out_def delete_client_def test_cm_def
        test_client_def)
  have late: "indices_consistent (CheckTimeouts [1] 1800000000001 test_cm)"
    using C10_indices_preserved [of test_cm test_key "[]" 1800000000001 1 7 "[1]"] t
    by blast
  from C10_indices_preserved [of test_cm test_key "[]" 50 1 7 "[1]"] t new add evicted late
  show ?thesis by blast
qed

lemma hex_digit_inj:
  assumes "a < 16" "b < 16" "''0123456789abcdef'' ! a = ''0123456789abcdef'' ! b"
  shows "a = b"
proof -
  have "distinct ''0123456789abcdef''" by simp
  moreover have "length ''0123456789abcdef'' = 16" by simp
  ultimately show ?thesis
    using assms by (metis nth_eq_iff_index_eq)
qed

lemma byte_nibbles_eq:
  fixes b b' :: byte
  assumes hi: "drop_bit 4 b = drop_bit 4 b'" and lo: "b AND 0x0F = b' AND 0x0F"
  shows "b = b'"
proof (rule bit_word_eqI)
  fix n assume "n < LENGTH(8)"
  show "bit b n = bit b' n"
  proof (cases "n < 4")
    case True
    have m: "(0x0F :: byte) = mask 4"
      by (simp add: mask_eq_exp_minus_1)
    have "bit (b AND mask 4) n = bit (b' AND mask 4) n"
      using lo by (simp only: m)
    with True show ?thesis by (simp add: bit_and_iff bit_mask_iff)
  next
    case False
    have "bit (drop_bit 4 b) (n - 4) = bit (drop_bit 4 b') (n - 4)" by (simp only: hi)
    with False show ?thesis by (simp add: bit_drop_bit_eq)
  qed
qed

lemma byte_hex_inj:
  fixes b b' :: byte
  assumes "''0123456789abcdef'' ! unat (drop_bit 4 b) = ''0123456789abcdef'' ! unat (drop_bit 4 b')"
    and "''0123456789abcdef'' ! unat (b AND 0x0F) = ''0123456789abcdef'' ! unat (b' AND 0x0F)"
  shows "b = b'"
proof -
  have hi: "unat (drop_bit 4 x) < 16" for x :: byte
  proof -
    have "unat x < 256" using unsigned_less [of x, where ?'a = nat] by simp
    then show ?thesis by (simp add: unat_drop_bit_eq drop_bit_eq_div unat_div)
  qed
  have lo: "unat (x AND 0x0F) < 16" for x :: byte
  proof -
    have "unat (x AND 15) \<le> unat (15 :: byte)"
      by (rule word_and_le1 [THEN word_le_nat_alt [THEN iffD1]])
    then show ?thesis by simp
  qed
  from hex_digit_inj [OF hi hi assms(1)] have "drop_bit 4 b = drop_bit 4 b'"
    by (simp add: word_unat_eq_iff)
  moreover from hex_digit_inj [OF lo lo assms(2)] have "b AND 0x0F = b' AND 0x0F"
    by (simp add: word_unat_eq_iff)
  ultimately show ?thesis by (rule byte_nibbles_eq)
qed

lemma Sprintf_x_Cons:
  "Sprintf_x (b # bs) = ''0123456789abcdef'' ! unat (drop_bit 4 b)
      # ''0123456789abcdef'' ! unat (b AND 0x0F) # Sprintf_x bs"
  by (simp add: Sprintf_x_def)

lemma Sprintf_x_Nil: "Sprintf_x [] = []"
  by (simp add: Sprintf_x_def)

lemma Sprintf_x_inj: "Sprintf_x xs = Sprintf_x ys \<Longrightarrow> xs = ys"
proof (induction xs arbitrary: ys)
  case Nil
  then show ?case by (cases ys) (simp_all add: Sprintf_x_Nil Sprintf_x_Cons)
next
  case (Cons x xs)
  then obtain y ys' where ys: "ys = y # ys'"
    by (cases ys) (simp_all add: Sprintf_x_Nil Sprintf_x_Cons)
  with Cons.prems have "x = y" "Sprintf_x xs = Sprintf_x ys'"
    by (auto simp: Sprintf_x_Cons intro: byte_hex_inj)
  with Cons.IH ys show ?case by simp
qed

lemma ip_unused_iff:
  assumes "indices_consistent cm"
  shows "ipToClient cm a = None \<longleftrightarrow> (\<forall>i d. clients cm i = Some d \<longrightarrow> IP d \<noteq> a)"
  using icD_ip [OF assms] icD_ip_live [OF assms, of a]
  by (cases "ipToClient cm a") fastforce+

lemma key_unused_iff:
  assumes "indices_consistent cm"
  shows "keyToClient cm (Sprintf_x k) = None \<longleftrightarrow> (\<forall>i d. clients cm i = Some d \<longrightarrow> Key d \<noteq> k)"
proof
  assume "keyToClient cm (Sprintf_x k) = None"
  with icD_key [OF assms] show "\<forall>i d. clients cm i = Some d \<longrightarrow> Key d \<noteq> k"
    by fastforce
next
  assume fresh: "\<forall>i d. clients cm i = Some d \<longrightarrow> Key d \<noteq> k"
  show "keyToClient cm (Sprintf_x k) = None"
  proof (cases "keyToClient cm (Sprintf_x k)")
    case None then show ?thesis .
  next
    case (Some i)
    from icD_key_live [OF assms Some] obtain d
      where "clients cm i = Some d" "Sprintf_x (Key d) = Sprintf_x k" by blast
    with fresh Sprintf_x_inj show ?thesis by blast
  qed
qed

lemma AddClient_succeeds:
  assumes inv: "table_inv cm" and room: "card (dom (clients cm)) \<noteq> 254"
    and fresh: "keyToClient cm (Sprintf_x key) = None"
  shows "AddClient key address now cm =
        (Inr \<lparr> ID = findNextClientID cm, IP = assignNextIP cm, Key = key, Address = address,
               Connected = True, LastSeen = now, LastSeq = 0 \<rparr>,
         cm\<lparr> clients := (clients cm)(findNextClientID cm \<mapsto>
               \<lparr> ID = findNextClientID cm, IP = assignNextIP cm, Key = key,
                 Address = address, Connected = True, LastSeen = now, LastSeq = 0 \<rparr>),
             ipToClient := (ipToClient cm)(assignNextIP cm \<mapsto> findNextClientID cm),
             keyToClient := (keyToClient cm)(Sprintf_x key \<mapsto> findNextClientID cm) \<rparr>)"
  using table_inv_len_clients [OF inv] table_inv_findNextClientID [OF inv]
    assignNextIP_empty_iff [OF inv] room fresh
  by (simp add: AddClient_def Let_def)

lemma AddClient_error_cases:
  assumes inv: "table_inv cm"
  shows "fst (AddClient key address now cm) =
     (if keyToClient cm (Sprintf_x key) \<noteq> None then Inl ErrClientAlreadyExists
      else if card (dom (clients cm)) = 254 then Inl ErrNoIPAvailable
      else Inr \<lparr> ID = findNextClientID cm, IP = assignNextIP cm, Key = key, Address = address,
               Connected = True, LastSeen = now, LastSeq = 0 \<rparr>)"
  using table_inv_len_clients [OF inv] table_inv_findNextClientID [OF inv]
    assignNextIP_empty_iff [OF inv]
  by (simp add: AddClient_def Let_def)

lemma uniqueness:
  assumes ic: "indices_consistent cm"
    and "clients cm i = Some ci" "clients cm j = Some cj" "i \<noteq> j"
  shows "ID ci \<noteq> ID cj \<and> IP ci \<noteq> IP cj \<and> Sprintf_x (Key ci) \<noteq> Sprintf_x (Key cj)"
  using assms(2-) icD_id [OF ic] icD_ip [OF ic] icD_key [OF ic]
  by (metis option.inject)

lemma smallest_ip:
  assumes ic: "indices_consistent cm" and ne: "assignNextIP cm \<noteq> []"
  shows "\<exists>n. 2 \<le> n \<and> n \<le> 255 \<and> assignNextIP cm = Sprintf_ip n
      \<and> (\<forall>i d. clients cm i = Some d \<longrightarrow> IP d \<noteq> Sprintf_ip n)
      \<and> (\<forall>k. 2 \<le> k \<and> k < n \<longrightarrow> (\<exists>i d. clients cm i = Some d \<and> IP d = Sprintf_ip k))"
proof -
  from assignNextIP_from_cases [of "ipToClient cm" 2] ne
  obtain n where n: "2 \<le> n" "n \<le> 255" "assignNextIP cm = Sprintf_ip n"
    "ipToClient cm (Sprintf_ip n) = None"
    "\<forall>k. 2 \<le> k \<and> k < n \<longrightarrow> ipToClient cm (Sprintf_ip k) \<noteq> None"
    unfolding assignNextIP_def by blast
  from n(4) have "\<forall>i d. clients cm i = Some d \<longrightarrow> IP d \<noteq> Sprintf_ip n"
    by (simp add: ip_unused_iff [OF ic])
  moreover have "\<forall>k. 2 \<le> k \<and> k < n \<longrightarrow> (\<exists>i d. clients cm i = Some d \<and> IP d = Sprintf_ip k)"
    using n(5) ip_unused_iff [OF ic] by blast
  ultimately show ?thesis using n(1-3) by blast
qed

text \<open>
  C5 (amended). In every table reached from the empty one by \<open>AddClient\<close>,
  \<open>RemoveClient\<close>, \<open>UpdateClientActivity\<close> and \<open>CheckTimeouts\<close>: ids, inner IPs
  and key fingerprints are pairwise distinct across live entries; a newly admitted peer
  gets the smallest unused id in 1..255 and the smallest unused address of
  10.0.0.2..10.0.0.255; the table never holds more than 254 entries, because the address
  pool has 254 members; \<open>AddClient\<close> returns the capacity error ("no IP addresses
  available") exactly when 254 entries are live and the key is not already live; and
  \<open>ErrMaxClientsReached\<close> is never returned.
\<close>

theorem C5_table_invariants:
  assumes "cm = run_ops ops NewClientManager"
  shows "(\<forall>i j ci cj. clients cm i = Some ci \<and> clients cm j = Some cj \<and> i \<noteq> j \<longrightarrow>
            ID ci \<noteq> ID cj \<and> IP ci \<noteq> IP cj \<and> Sprintf_x (Key ci) \<noteq> Sprintf_x (Key cj))
    \<and> (\<forall>c cm'. AddClient key address now cm = (Inr c, cm') \<longrightarrow>
          ID c \<noteq> 0 \<and> clients cm (ID c) = None
          \<and> (\<forall>j. j \<noteq> 0 \<and> j < ID c \<longrightarrow> clients cm j \<noteq> None)
          \<and> (\<exists>n. 2 \<le> n \<and> n \<le> 255 \<and> IP c = Sprintf_ip n
                \<and> (\<forall>i d. clients cm i = Some d \<longrightarrow> IP d \<noteq> Sprintf_ip n)
                \<and> (\<forall>k. 2 \<le> k \<and> k < n \<longrightarrow>
                      (\<exists>i d. clients cm i = Some d \<and> IP d = Sprintf_ip k))))
    \<and> (fst (AddClient key address now cm) = Inl ErrNoIPAvailable \<longleftrightarrow>
          card (dom (clients cm)) = 254
          \<and> (\<forall>i d. clients cm i = Some d \<longrightarrow> Key d \<noteq> key))
    \<and> fst (AddClient key address now cm) \<noteq> Inl ErrMaxClientsReached
    \<and> card (dom (clients cm)) \<le> 254"
proof -
  have inv: "table_inv cm"
    unfolding assms by (rule table_inv_reachable)
  then have ic: "indices_consistent cm"
    by (simp add: table_inv_def)
  have uniq: "\<forall>i j ci cj. clients cm i = Some ci \<and> clients cm j = Some cj \<and> i \<noteq> j \<longrightarrow>
            ID ci \<noteq> ID cj \<and> IP ci \<noteq> IP cj \<and> Sprintf_x (Key ci) \<noteq> Sprintf_x (Key cj)"
    using uniqueness [OF ic] by blast
  have smallest: "\<forall>c cm'. AddClient key address now cm = (Inr c, cm') \<longrightarrow>
          ID c \<noteq> 0 \<and> clients cm (ID c) = None
          \<and> (\<forall>j. j \<noteq> 0 \<and> j < ID c \<longrightarrow> clients cm j \<noteq> None)
          \<and> (\<exists>n. 2 \<le> n \<and> n \<le> 255 \<and> IP c = Sprintf_ip n
                \<and> (\<forall>i d. clients cm i = Some d \<longrightarrow> IP d \<noteq> Sprintf_ip n)
                \<and> (\<forall>k. 2 \<le> k \<and> k < n \<longrightarrow>
                      (\<exists>i d. clients cm i = Some d \<and> IP d = Sprintf_ip k)))"
  proof (intro allI impI)
    fix c cm' assume ok: "AddClient key address now cm = (Inr c, cm')"
    show "ID c \<noteq> 0 \<and> clients cm (ID c) = None
          \<and> (\<forall>j. j \<noteq> 0 \<and> j < ID c \<longrightarrow> clients cm j \<noteq> None)
          \<and> (\<exists>n. 2 \<le> n \<and> n \<le> 255 \<and> IP c = Sprintf_ip n
                \<and> (\<forall>i d. clients cm i = Some d \<longrightarrow> IP d \<noteq> Sprintf_ip n)
                \<and> (\<forall>k. 2 \<le> k \<and> k < n \<longrightarrow>
                      (\<exists>i d. clients cm i = Some d \<and> IP d = Sprintf_ip k)))"
    proof (cases key address now cm rule: AddClient_cases)
      case (full err)
      with ok show ?thesis by simp
    next
      case added
      with ok have c: "ID c = findNextClientID cm" "IP c = assignNextIP cm"
        by auto
      from findNextClientID_least [OF added(1)] smallest_ip [OF ic added(2)] added(1)
      show ?thesis unfolding c by blast
    qed
  qed
  have cap: "fst (AddClient key address now cm) = Inl ErrNoIPAvailable \<longleftrightarrow>
          card (dom (clients cm)) = 254
          \<and> (\<forall>i d. clients cm i = Some d \<longrightarrow> Key d \<noteq> key)"
    unfolding AddClient_error_cases [OF inv] key_unused_iff [OF ic, symmetric]
    by auto
  have nomax: "fst (AddClient key address now cm) \<noteq> Inl ErrMaxClientsReached"
    unfolding AddClient_error_cases [OF inv] by auto
  from uniq smallest cap nomax table_inv_card_le [OF inv] show ?thesis
    by blast
qed

text \<open>Filling the table: 254 admissions with pairwise different 32-byte keys.\<close>

lemma fill_key_inj:
  assumes "a < 256" "b < 256" "fill_key a = fill_key b"
  shows "a = b"
proof -
  from assms(3) have "(of_nat a :: byte) = of_nat b"
    by (simp add: fill_key_def)
  then have "unat (of_nat a :: byte) = unat (of_nat b :: byte)" by simp
  with assms(1,2) show ?thesis
    by (simp add: unat_of_nat)
qed

lemma fill_ops_Suc:
  "fill_ops (Suc n) = fill_ops n @ [OpAddClient (fill_key (Suc n)) ''198.51.100.7:4000'' 0]"
  by (simp add: fill_ops_def)

lemma fill_state:
  "n \<le> 254 \<Longrightarrow>
     card (dom (clients (run_ops (fill_ops n) NewClientManager))) = n
     \<and> (\<forall>i d. clients (run_ops (fill_ops n) NewClientManager) i = Some d
            \<longrightarrow> Key d \<in> fill_key ` {1..n})"
proof (induction n)
  case 0
  then show ?case by (simp add: fill_ops_def NewClientManager_def)
next
  case (Suc n)
  let ?S = "run_ops (fill_ops n) NewClientManager"
  let ?k = "fill_key (Suc n)"
  from Suc have card: "card (dom (clients ?S)) = n"
    and keys: "\<forall>i d. clients ?S i = Some d \<longrightarrow> Key d \<in> fill_key ` {1..n}"
    by simp_all
  have inv: "table_inv ?S" by (rule table_inv_reachable)
  then have ic: "indices_consistent ?S" by (simp add: table_inv_def)
  have fresh: "keyToClient ?S (Sprintf_x ?k) = None"
    unfolding key_unused_iff [OF ic]
  proof (intro allI impI)
    fix i d assume "clients ?S i = Some d"
    with keys have "Key d \<in> fill_key ` {1..n}" by blast
    then obtain m where m: "1 \<le> m" "m \<le> n" "Key d = fill_key m" by auto
    show "Key d \<noteq> ?k"
    proof
      assume "Key d = ?k"
      with m have "fill_key m = fill_key (Suc n)" by simp
      from fill_key_inj [OF _ _ this] m Suc.prems show False by simp
    qed
  qed
  from card Suc.prems have room: "card (dom (clients ?S)) \<noteq> 254" by simp
  have free: "clients ?S (findNextClientID ?S) = None"
    by (rule findNextClientID_free [OF table_inv_findNextClientID [OF inv]])
  have step: "run_ops (fill_ops (Suc n)) NewClientManager
      = snd (AddClient ?k ''198.51.100.7:4000'' 0 ?S)"
    by (simp add: fill_ops_Suc run_ops_append)
  have cl: "clients (run_ops (fill_ops (Suc n)) NewClientManager)
      = (clients ?S)(findNextClientID ?S \<mapsto>
            \<lparr> ID = findNextClientID ?S, IP = assignNextIP ?S, Key = ?k,
              Address = ''198.51.100.7:4000'', Connected = True, LastSeen = 0, LastSeq = 0 \<rparr>)"
    unfolding step AddClient_succeeds [OF inv room fresh] by simp
  have "card (dom (clients (run_ops (fill_ops (Suc n)) NewClientManager))) = Suc n"
    unfolding cl using free card by (simp add: domIff)
  moreover have "\<forall>i d. clients (run_ops (fill_ops (Suc n)) NewClientManager) i = Some d
            \<longrightarrow> Key d \<in> fill_key ` {1..Suc n}"
  proof (intro allI impI)
    fix i d
    assume "clients (run_ops (fill_ops (Suc n)) NewClientManager) i = Some d"
    then have "Key d = ?k \<or> clients ?S i = Some d"
      unfolding cl by (auto split: if_splits)
    with keys have "Key d = ?k \<or> Key d \<in> fill_key ` {1..n}" by blast
    then show "Key d \<in> fill_key ` {1..Suc n}" by auto
  qed
  ultimately show ?case by blast
qed

text \<open>
  C5, as stated, fails on the capacity: after 254 admissions (ids 1..254, addresses
  10.0.0.2..10.0.0.255) the table holds 254 entries, not 255, and the next admission is
  already refused for lack of an address.
\<close>

theorem C5_capacity_counterexample:
  "card (dom (clients full_table)) = 254
   \<and> fst (AddClient (fill_key 0) ''203.0.113.5:5000'' 0 full_table) = Inl ErrNoIPAvailable"
proof -
  have inv: "table_inv full_table"
    unfolding full_table_def by (rule table_inv_reachable)
  then have ic: "indices_consistent full_table" by (simp add: table_inv_def)
  from fill_state [of 254] have card: "card (dom (clients full_table)) = 254"
    and keys: "\<forall>i d. clients full_table i = Some d \<longrightarrow> Key d \<in> fill_key ` {1..254}"
    unfolding full_table_def by simp_all
  have fresh: "keyToClient full_table (Sprintf_x (fill_key 0)) = None"
    unfolding key_unused_iff [OF ic]
  proof (intro allI impI)
    fix i d assume "clients full_table i = Some d"
    with keys have "Key d \<in> fill_key ` {1..254}" by blast
    then obtain m where m: "1 \<le> m" "m \<le> 254" "Key d = fill_key m" by auto
    show "Key d \<noteq> fill_key 0"
    proof
      assume "Key d = fill_key 0"
      with m have "fill_key m = fill_key 0" by simp
      from fill_key_inj [OF _ _ this] m show False by simp
    qed
  qed
  from card fresh show ?thesis
    by (simp add: AddClient_error_cases [OF inv])
qed

lemma eval_add2:
  "AddClient other_key ''192.168.1.101:12346'' 9 test_cm =
     (Inr \<lparr> ID = 2, IP = ''10.0.0.3'', Key = other_key, Address = ''192.168.1.101:12346'',
            Connected = True, LastSeen = 9, LastSeq = 0 \<rparr>,
      test_cm\<lparr> clients := (clients test_cm)(2 \<mapsto>
            \<lparr> ID = 2, IP = ''10.0.0.3'', Key = other_key, Address = ''192.168.1.101:12346'',
              Connected = True, LastSeen = 9, LastSeq = 0 \<rparr>),
          ipToClient := (ipToClient test_cm)(''10.0.0.3'' \<mapsto> 2),
          keyToClient := (keyToClient test_cm)(Sprintf_x other_key \<mapsto> 2) \<rparr>)"
proof -
  have l: "\<not> 256 \<le> len_clients test_cm"
    by (rule len_clients_small [of _ 0]) (simp add: test_cm_def)
  have f: "findNextClientID test_cm = 2"
    by (simp add: findNextClientID_def findNextClientID_from.simps test_cm_def)
  have a: "assignNextIP test_cm = ''10.0.0.3''"
    by (simp add: assignNextIP_def assignNextIP_from.simps test_cm_def Sprintf_ip_def
        Itoa.simps)
  have "test_key \<noteq> other_key"
    by (simp add: test_key_def other_key_def)
  then have k: "keyToClient test_cm (Sprintf_x other_key) = None"
    using Sprintf_x_inj [of test_key other_key] by (auto simp: test_cm_def)
  show ?thesis
    by (simp add: AddClient_def l f a k Let_def)
qed

theorem C5_table_invariants_witness:
  "test_cm = run_ops [OpAddClient test_key ''192.168.1.100:12345'' 0] NewClientManager
   \<and> AddClient other_key ''192.168.1.101:12346'' 9 test_cm =
     (Inr \<lparr> ID = 2, IP = ''10.0.0.3'', Key = other_key, Address = ''192.168.1.101:12346'',
            Connected = True, LastSeen = 9, LastSeq = 0 \<rparr>,
      test_cm\<lparr> clients := (clients test_cm)(2 \<mapsto>
            \<lparr> ID = 2, IP = ''10.0.0.3'', Key = other_key, Address = ''192.168.1.101:12346'',
              Connected = True, LastSeen = 9, LastSeq = 0 \<rparr>),
          ipToClient := (ipToClient test_cm)(''10.0.0.3'' \<mapsto> 2),
          keyToClient := (keyToClient test_cm)(Sprintf_x other_key \<mapsto> 2) \<rparr>)
   \<and> clients test_cm 2 = None
   \<and> clients test_cm 1 \<noteq> None
   \<and> fst (AddClient other_key ''192.168.1.101:12346'' 9 test_cm) \<noteq> Inl ErrMaxClientsReached
   \<and> card (dom (clients test_cm)) \<le> 254"
proof -
  have reach: "test_cm = run_ops [OpAddClient test_key ''192.168.1.100:12345'' 0] NewClientManager"
    by (simp add: eval_add1)
  note r = C5_table_invariants [OF reach, of other_key "''192.168.1.101:12346''" 9]
  from r eval_add2 have a: "clients test_cm 2 = None"
    by (metis Client.select_convs(1))
  from r have b: "fst (AddClient other_key ''192.168.1.101:12346'' 9 test_cm)
      \<noteq> Inl ErrMaxClientsReached" and c: "card (dom (clients test_cm)) \<le> 254"
    by blast+
  have d: "clients test_cm 1 \<noteq> None" by (simp add: test_cm_def)
  from reach eval_add2 a b c d show ?thesis by blast
qed

section \<open>Authentication of a peer that is already live\<close>

lemma sendAuthResponse_table:
  "clientManager (snd (sendAuthResponse i ip key addr s)) = clientManager s"
  by (simp add: sendAuthResponse_def WriteToUDP_table Let_def)

lemma handleAuthPacket_registered:
  assumes "ClientID packet \<noteq> 0" and "keyManager s (ClientID packet) = Some key"
  shows "handleAuthPacket random_key now packet clientAddr s =
     (case AddClient key clientAddr now (clientManager s) of
        (Inl err, cm') \<Rightarrow> s\<lparr> clientManager := cm' \<rparr>
      | (Inr client, cm') \<Rightarrow>
          snd (sendAuthResponse (ID client) (IP client) key clientAddr
                 (s\<lparr> clientManager := cm' \<rparr>)))"
  using assms by (simp add: handleAuthPacket_def HasClient_def GetClientKey_def)

text \<open>
  C4 (amended). For an Auth packet carrying a claimed id in 1..255 whose key is in the
  registry, sent to a server whose peer table was built by the table's operations, when a
  live entry with this id exists: the handler never replaces that entry (it keeps its
  remote address, \<open>LastSeq\<close>, key and inner IP, whatever else happens); and when the
  registry key is already held by a live entry, \<open>AddClient\<close> refuses with
  \<open>ErrClientAlreadyExists\<close>, no response is sent and the server state is unchanged.
\<close>

theorem C4_reauth_refused:
  assumes "ClientID packet \<noteq> 0"
    and "keyManager s (ClientID packet) = Some key"
    and "clients (clientManager s) (ClientID packet) = Some c"
    and "clientManager s = run_ops ops NewClientManager"
  shows "clients (clientManager (handleAuthPacket random_key now packet clientAddr s))
            (ClientID packet) = Some c
    \<and> ((\<exists>i d. clients (clientManager s) i = Some d \<and> Key d = key) \<longrightarrow>
          fst (AddClient key clientAddr now (clientManager s)) = Inl ErrClientAlreadyExists
          \<and> handleAuthPacket random_key now packet clientAddr s = s)"
proof -
  let ?cm = "clientManager s"
  have inv: "table_inv ?cm"
    unfolding assms(4) by (rule table_inv_reachable)
  then have ic: "indices_consistent ?cm"
    by (simp add: table_inv_def)
  have frame: "clients (clientManager (handleAuthPacket random_key now packet clientAddr s))
            (ClientID packet) = Some c"
  proof (cases key clientAddr now ?cm rule: AddClient_cases)
    case (full err)
    with assms(3) show ?thesis
      by (simp add: handleAuthPacket_registered [OF assms(1,2)])
  next
    case added
    from findNextClientID_free [OF added(1)] assms(3)
    have "findNextClientID ?cm \<noteq> ClientID packet" by auto
    with assms(3) show ?thesis
      by (simp add: handleAuthPacket_registered [OF assms(1,2)] added(5) sendAuthResponse_table)
  qed
  have refused: "fst (AddClient key clientAddr now ?cm) = Inl ErrClientAlreadyExists
      \<and> handleAuthPacket random_key now packet clientAddr s = s"
    if live: "\<exists>i d. clients ?cm i = Some d \<and> Key d = key"
  proof -
    from live have "keyToClient ?cm (Sprintf_x key) \<noteq> None"
      using key_unused_iff [OF ic, of key] by blast
    with table_inv_len_clients [OF inv]
    have "AddClient key clientAddr now ?cm = (Inl ErrClientAlreadyExists, ?cm)"
      by (simp add: AddClient_def Let_def)
    then show ?thesis
      by (simp add: handleAuthPacket_registered [OF assms(1,2)])
  qed
  from frame refused show ?thesis by blast
qed

text \<open>
  C4, as stated, fails: peer 1 is live with the registry key of id 1, and an Auth packet
  claiming id 1 arrives from a new address. \<open>AddClient\<close> finds the key in
  \<open>keyToClient\<close> and returns \<open>ErrClientAlreadyExists\<close>; the handler logs and returns.
  The session is not replaced: the state, and with it the recorded address, is unchanged
  and nothing is sent.
\<close>

theorem C4_reauth_counterexample:
  "clients (clientManager test_server) (ClientID auth_packet_1) = Some test_client
   \<and> keyManager test_server (ClientID auth_packet_1) = Some test_key
   \<and> handleAuthPacket other_key 50 auth_packet_1 ''203.0.113.9:4000'' test_server = test_server
   \<and> Address test_client \<noteq> ''203.0.113.9:4000''
   \<and> udpConn test_server = []"
proof -
  have l: "\<not> 256 \<le> len_clients test_cm"
    by (rule len_clients_small [of _ 0]) (simp add: test_cm_def)
  have a: "AddClient test_key ''203.0.113.9:4000'' 50 test_cm = (Inl ErrClientAlreadyExists, test_cm)"
    using l by (simp add: AddClient_def Let_def) (simp add: test_cm_def)
  have h: "handleAuthPacket other_key 50 auth_packet_1 ''203.0.113.9:4000'' test_server = test_server"
    by (simp add: handleAuthPacket_def HasClient_def GetClientKey_def test_server_def
        auth_packet_1_def a)
  show ?thesis
    using h by (simp add: test_server_def test_cm_def auth_packet_1_def test_client_def)
qed

theorem C4_reauth_refused_witness:
  "ClientID auth_packet_1 \<noteq> 0
   \<and> keyManager test_server (ClientID auth_packet_1) = Some test_key
   \<and> clients (clientManager test_server) (ClientID auth_packet_1) = Some test_client
   \<and> clientManager test_server
       = run_ops [OpAddClient test_key ''192.168.1.100:12345'' 0] NewClientManager
   \<and> clients (clientManager
         (handleAuthPacket other_key 60 auth_packet_1 ''203.0.113.9:4000'' test_server))
         (ClientID auth_packet_1) = Some test_client
   \<and> fst (AddClient test_key ''203.0.113.9:4000'' 60 (clientManager test_server))
       = Inl ErrClientAlreadyExists
   \<and> handleAuthPacket other_key 60 auth_packet_1 ''203.0.113.9:4000'' test_server
       = test_server"
proof -
  have a: "ClientID auth_packet_1 \<noteq> 0"
    by (simp add: auth_packet_1_def)
  have b: "keyManager test_server (ClientID auth_packet_1) = Some test_key"
    by (simp add: auth_packet_1_def test_server_def)
  have c: "clients (clientManager test_server) (ClientID auth_packet_1) = Some test_client"
    by (simp add: auth_packet_1_def test_server_def test_cm_def)
  have d: "clientManager test_server
       = run_ops [OpAddClient test_key ''192.168.1.100:12345'' 0] NewClientManager"
    by (simp add: eval_add1 test_server_def)
  have live: "\<exists>i d. clients (clientManager test_server) i = Some d \<and> Key d = test_key"
  proof -
    have "Key test_client = test_key" by (simp add: test_client_def)
    with c show ?thesis by blast
  qed
  from C4_reauth_refused [OF a b c d, of other_key 60 "''203.0.113.9:4000''"] live a b c d
  show ?thesis by blast
qed

end
